theory Spec2Isabelle
  imports Complex_Main
begin

section \<open>Particle system (src/hooks/useParticleSystem.ts)\<close>

text \<open>
  JavaScript numbers are modelled as real numbers. In \<open>updateParticles\<close>,
  \<open>renderParticles\<close> and the hand tracking the arithmetic is the exact one the code
  writes down; in \<open>initParticles\<close>, where a bound depends on it, every operation is
  rounded to the nearest double. The fields \<open>x\<close> and \<open>y\<close> of \<open>Particle\<close> and
  \<open>HandPosition\<close> are called \<open>px\<close>, \<open>py\<close> and \<open>hx\<close>, \<open>hy\<close>; every other
  field keeps its name.
\<close>

record Particle =
  px :: real
  py :: real
  vx :: real
  vy :: real
  radius :: real
  color :: string
  alpha :: real
  life :: real
  maxLife :: real

record HandPosition =
  hx :: real
  hy :: real
  isOpen :: bool

definition PARTICLE_COLORS :: "string list" where
  "PARTICLE_COLORS =
     [''hsl(185, 100%, 55%)'',
      ''hsl(210, 100%, 60%)'',
      ''hsl(270, 80%, 65%)'',
      ''hsl(195, 100%, 50%)'',
      ''hsl(240, 80%, 60%)'']"

text \<open>
  \<open>Math.random()\<close>: the generator is the sequence of values it is going to return,
  each in \<open>[0, 1)\<close>; a draw returns the first and leaves the rest.
\<close>

type_synonym random = "nat \<Rightarrow> real"

definition Math_random :: "random \<Rightarrow> real \<times> random" where
  "Math_random g = (g 0, \<lambda>n. g (Suc n))"

definition unit_random :: "random \<Rightarrow> bool" where
  "unit_random g = (\<forall>n. 0 \<le> g n \<and> g n < 1)"

text \<open>
  \<open>Math.atan2(b, a)\<close>: the angle of the point \<open>(a, b)\<close> in \<open>(-\<pi>, \<pi>]\<close>, and 0 at
  the origin.
\<close>

definition atan2 :: "real \<Rightarrow> real \<Rightarrow> real" where
  "atan2 b a =
     (if 0 < a then arctan (b / a)
      else if a < 0 then (if 0 \<le> b then arctan (b / a) + pi else arctan (b / a) - pi)
      else if 0 < b then pi / 2
      else if b < 0 then - (pi / 2)
      else 0)"

subsection \<open>updateParticles\<close>

text \<open>The block "Apply hand interaction" (lines 63 to 78).\<close>

definition applyHand :: "real \<Rightarrow> real \<Rightarrow> HandPosition option \<Rightarrow> Particle \<Rightarrow> Particle" where
  "applyHand interactionRadius interactionStrength hand particle =
     (case hand of
        None \<Rightarrow> particle
      | Some h \<Rightarrow>
          (let dx = px particle - hx h;
               dy = py particle - hy h;
               distance = sqrt (dx * dx + dy * dy)
           in if distance < interactionRadius \<and> distance > 0 then
                (let force = (interactionRadius - distance) / interactionRadius;
                     angle = atan2 dy dx;
                     direction = (if isOpen h then 1 else - 1)
                 in particle
                      \<lparr>vx := vx particle + cos angle * force * interactionStrength * direction,
                       vy := vy particle + sin angle * force * interactionStrength * direction\<rparr>)
              else particle))"

text \<open>
  The body of the inner \<open>forEach\<close> (lines 84 to 93) for an \<open>other\<close> that is not the
  particle itself.
\<close>

definition separation :: "Particle \<Rightarrow> Particle \<Rightarrow> Particle" where
  "separation other particle =
     (let dx = px other - px particle;
          dy = py other - py particle;
          distance = sqrt (dx * dx + dy * dy)
      in if distance < 20 \<and> distance > 0 then
           (let force = (20 - distance) / 20 * 0.05
            in particle
                 \<lparr>vx := vx particle - (dx / distance) * force,
                  vy := vy particle - (dy / distance) * force\<rparr>)
         else particle)"

text \<open>
  The inner \<open>forEach\<close> over the array, each element with its index; \<open>particle ===
  other\<close> is object identity, which in the array is equality of indices.
\<close>

fun applyFluid :: "nat \<Rightarrow> (nat \<times> Particle) list \<Rightarrow> Particle \<Rightarrow> Particle" where
  "applyFluid i [] particle = particle"
| "applyFluid i ((j, other) # rest) particle =
     applyFluid i rest (if j = i then particle else separation other particle)"

text \<open>Damping, gravity and the position update (lines 96 to 105).\<close>

definition integrate :: "Particle \<Rightarrow> Particle" where
  "integrate particle =
     (let p1 = particle\<lparr>vx := vx particle * 0.98\<rparr>;
          p2 = p1\<lparr>vy := vy p1 * 0.98\<rparr>;
          p3 = p2\<lparr>vy := vy p2 + 0.02\<rparr>;
          p4 = p3\<lparr>px := px p3 + vx p3\<rparr>
      in p4\<lparr>py := py p4 + vy p4\<rparr>)"

text \<open>Boundary collision (lines 107 to 123): four independent tests, in this order.\<close>

definition bounce :: "real \<Rightarrow> real \<Rightarrow> Particle \<Rightarrow> Particle" where
  "bounce width height particle =
     (let p1 = (if px particle < 0 then particle\<lparr>px := 0, vx := vx particle * (- 0.5)\<rparr>
                else particle);
          p2 = (if px p1 > width then p1\<lparr>px := width, vx := vx p1 * (- 0.5)\<rparr> else p1);
          p3 = (if py p2 < 0 then p2\<lparr>py := 0, vy := vy p2 * (- 0.5)\<rparr> else p2)
      in if py p3 > height then p3\<lparr>py := height, vy := vy p3 * (- 0.5)\<rparr> else p3)"

text \<open>Life update (lines 125 to 130); the random generator is used only on a respawn.\<close>

definition updateLife :: "random \<Rightarrow> Particle \<Rightarrow> Particle \<times> random" where
  "updateLife g particle =
     (let p1 = particle\<lparr>life := life particle + 1\<rparr>
      in if life p1 > maxLife p1 then
           (let (r, g') = Math_random g
            in (p1\<lparr>life := 0, alpha := r * 0.5 + 0.5\<rparr>, g'))
         else (p1, g))"

text \<open>
  One call of the outer callback, for the particle at index \<open>i\<close> of the array as it
  is at that moment.
\<close>

definition updateParticle ::
  "real \<Rightarrow> real \<Rightarrow> real \<Rightarrow> real \<Rightarrow> HandPosition option \<Rightarrow> Particle list \<Rightarrow> nat \<Rightarrow> random
     \<Rightarrow> Particle \<times> random" where
  "updateParticle interactionRadius interactionStrength width height hand particles i g =
     updateLife g
       (bounce width height
         (integrate
           (applyFluid i (enumerate 0 particles)
             (applyHand interactionRadius interactionStrength hand (particles ! i)))))"

text \<open>
  The outer \<open>forEach\<close>: the particles are objects mutated in place, so the callback
  for index \<open>i\<close> sees the particles before \<open>i\<close> as already updated.
\<close>

function updateFrom ::
  "real \<Rightarrow> real \<Rightarrow> real \<Rightarrow> real \<Rightarrow> HandPosition option \<Rightarrow> nat \<Rightarrow> Particle list \<times> random
     \<Rightarrow> Particle list \<times> random" where
  "updateFrom interactionRadius interactionStrength width height hand i (particles, g) =
     (if i < length particles then
        (let (p, g') =
               updateParticle interactionRadius interactionStrength width height hand particles i g
         in updateFrom interactionRadius interactionStrength width height hand (Suc i)
              (particles[i := p], g'))
      else (particles, g))"
  by pat_completeness auto
termination
  by (relation "measure (\<lambda>(R, S, w, h, hand, i, ps, g). length ps - i)") auto

declare updateFrom.simps [simp del]

text \<open>
  The state of the hook: the two refs the functions below read and write, and the
  random generator.
\<close>

record ParticleSystem =
  particlesRef :: "Particle list"
  handPositionRef :: "HandPosition option"
  randomRef :: random

definition updateParticles ::
  "real \<Rightarrow> real \<Rightarrow> real \<Rightarrow> real \<Rightarrow> ParticleSystem \<Rightarrow> ParticleSystem" where
  "updateParticles interactionRadius interactionStrength width height st =
     (let (particles, g) =
            updateFrom interactionRadius interactionStrength width height (handPositionRef st) 0
              (particlesRef st, randomRef st)
      in st\<lparr>particlesRef := particles, randomRef := g\<rparr>)"

definition setHandPosition :: "HandPosition option \<Rightarrow> ParticleSystem \<Rightarrow> ParticleSystem" where
  "setHandPosition position st = st\<lparr>handPositionRef := position\<rparr>"

subsection \<open>initParticles\<close>

text \<open>
  Arithmetic on doubles: the result of an operation is the exact result rounded to the
  nearest double, a tie going to the double whose last bit is 0. \<open>ulp x\<close> is the
  distance between the doubles around \<open>x\<close> (52 bits after the leading one, and no
  exponent under -1022), and a double is a number that rounding leaves as it is, below
  \<open>2 ^ 1024\<close> in size. Rounding is written for results below that size, which all
  results of \<open>initParticles\<close> are on a canvas whose width and height are doubles.
\<close>

definition roundEven :: "real \<Rightarrow> int" where
  "roundEven y =
     (let f = \<lfloor>y\<rfloor>; d = y - of_int f
      in if d < 1 / 2 then f
         else if 1 / 2 < d then f + 1
         else if even f then f else f + 1)"

definition ulp :: "real \<Rightarrow> real" where
  "ulp x = 2 powi (max \<lfloor>log 2 \<bar>x\<bar>\<rfloor> (- 1022) - 52)"

definition fl :: "real \<Rightarrow> real" where
  "fl x = (if x = 0 then 0 else ulp x * of_int (roundEven (x / ulp x)))"

definition double :: "real \<Rightarrow> bool" where
  "double x = (fl x = x \<and> \<bar>x\<bar> < 2 ^ 1024)"

definition double_random :: "random \<Rightarrow> bool" where
  "double_random g = (\<forall>n. double (g n))"

text \<open>
  The object literal of lines 42 to 52: nine draws, in the order of the fields, and
  every product, sum and difference rounded. An index into \<open>PARTICLE_COLORS\<close> is in
  range whenever the draw is a double in \<open>[0, 1)\<close>.
\<close>

definition newParticle :: "real \<Rightarrow> real \<Rightarrow> random \<Rightarrow> Particle \<times> random" where
  "newParticle width height g0 =
     (let (r1, g1) = Math_random g0;
          (r2, g2) = Math_random g1;
          (r3, g3) = Math_random g2;
          (r4, g4) = Math_random g3;
          (r5, g5) = Math_random g4;
          (r6, g6) = Math_random g5;
          (r7, g7) = Math_random g6;
          (r8, g8) = Math_random g7;
          (r9, g9) = Math_random g8
      in (\<lparr>px = fl (r1 * width),
           py = fl (r2 * height),
           vx = fl (fl (r3 - 0.5) * 2),
           vy = fl (fl (r4 - 0.5) * 2),
           radius = fl (fl (r5 * 3) + 1),
           color = PARTICLE_COLORS ! nat \<lfloor>fl (r6 * real (length PARTICLE_COLORS))\<rfloor>,
           alpha = fl (fl (r7 * 0.5) + 0.5),
           life = fl (r8 * 100),
           maxLife = fl (100 + fl (r9 * 100))\<rparr>, g9))"

function initFrom ::
  "nat \<Rightarrow> real \<Rightarrow> real \<Rightarrow> nat \<Rightarrow> Particle list \<times> random \<Rightarrow> Particle list \<times> random" where
  "initFrom particleCount width height i (particles, g) =
     (if i < particleCount then
        (let (p, g') = newParticle width height g
         in initFrom particleCount width height (Suc i) (particles @ [p], g'))
      else (particles, g))"
  by pat_completeness auto
termination
  by (relation "measure (\<lambda>(n, w, h, i, s). n - i)") auto

declare initFrom.simps [simp del]

definition initParticles :: "nat \<Rightarrow> real \<Rightarrow> real \<Rightarrow> ParticleSystem \<Rightarrow> ParticleSystem" where
  "initParticles particleCount width height st =
     (let (particles, g) = initFrom particleCount width height 0 ([], randomRef st)
      in st\<lparr>particlesRef := particles, randomRef := g\<rparr>)"

subsection \<open>renderParticles: the connections between nearby particles\<close>

text \<open>
  The calls on the 2D context made by lines 146 to 160, in the order they are made.
  A stroked path runs from the point of \<open>MoveTo\<close> to the point of \<open>LineTo\<close>.
\<close>

datatype CanvasCall =
  BeginPath
| MoveTo real real
| LineTo real real
| SetGlobalAlpha real
| Stroke

definition connection :: "Particle list \<Rightarrow> nat \<Rightarrow> nat \<Rightarrow> CanvasCall list" where
  "connection particles i j =
     (let dx = px (particles ! i) - px (particles ! j);
          dy = py (particles ! i) - py (particles ! j);
          distance = sqrt (dx * dx + dy * dy)
      in if distance < 50 then
           [BeginPath,
            MoveTo (px (particles ! i)) (py (particles ! j)),
            LineTo (px (particles ! j)) (py (particles ! j)),
            SetGlobalAlpha ((50 - distance) / 50 * 0.3),
            Stroke]
         else [])"

function connectionsInner :: "Particle list \<Rightarrow> nat \<Rightarrow> nat \<Rightarrow> CanvasCall list \<Rightarrow> CanvasCall list" where
  "connectionsInner particles i j calls =
     (if j < length particles then
        connectionsInner particles i (Suc j) (calls @ connection particles i j)
      else calls)"
  by pat_completeness auto
termination
  by (relation "measure (\<lambda>(ps, i, j, calls). length ps - j)") auto

declare connectionsInner.simps [simp del]

function connectionsOuter :: "Particle list \<Rightarrow> nat \<Rightarrow> CanvasCall list \<Rightarrow> CanvasCall list" where
  "connectionsOuter particles i calls =
     (if i < length particles then
        connectionsOuter particles (Suc i) (connectionsInner particles i (Suc i) calls)
      else calls)"
  by pat_completeness auto
termination
  by (relation "measure (\<lambda>(ps, i, calls). length ps - i)") auto

declare connectionsOuter.simps [simp del]

definition drawConnections :: "Particle list \<Rightarrow> CanvasCall list" where
  "drawConnections particles = connectionsOuter particles 0 []"

section \<open>Motion-based hand tracking (src/hooks/useHandTracking.ts)\<close>

record HandData =
  dataX :: real
  dataY :: real
  dataIsOpen :: bool

text \<open>
  What \<open>processFrame\<close> reads of the video element and of the analysis canvas. An
  \<open>ImageData\<close> is its \<open>data\<close> array, four bytes per pixel; a read past its end
  is \<open>undefined\<close>, here \<open>None\<close>.
\<close>

record Video =
  paused :: bool
  ended :: bool
  readyState :: nat
  videoWidth :: nat
  videoHeight :: nat

record Canvas =
  canvasWidth :: nat
  canvasHeight :: nat

type_synonym ImageData = "nat list"

definition byteAt :: "ImageData \<Rightarrow> nat \<Rightarrow> nat option" where
  "byteAt d i = (if i < length d then Some (d ! i) else None)"

text \<open>
  \<open>Math.abs(a - b)\<close> on two array reads: arithmetic on \<open>undefined\<close> gives NaN,
  which is \<open>None\<close> here, and every comparison with NaN is false.
\<close>

definition absDiff :: "nat option \<Rightarrow> nat option \<Rightarrow> real option" where
  "absDiff a b =
     (case a of
        None \<Rightarrow> None
      | Some u \<Rightarrow> (case b of None \<Rightarrow> None | Some v \<Rightarrow> Some \<bar>real u - real v\<bar>))"

definition average3 :: "real option \<Rightarrow> real option \<Rightarrow> real option \<Rightarrow> real option" where
  "average3 rDiff gDiff bDiff =
     (case rDiff of
        None \<Rightarrow> None
      | Some r \<Rightarrow>
          (case gDiff of
             None \<Rightarrow> None
           | Some g \<Rightarrow> (case bDiff of None \<Rightarrow> None | Some b \<Rightarrow> Some ((r + g + b) / 3))))"

definition exceeds :: "real option \<Rightarrow> real \<Rightarrow> bool" where
  "exceeds d t = (case d of None \<Rightarrow> False | Some v \<Rightarrow> v > t)"

definition threshold :: real where
  "threshold = 25"

definition step :: nat where
  "step = 4"

record Motion =
  motionX :: int
  motionY :: int
  motionCount :: nat

text \<open>The body of the inner loop (lines 65 to 77).\<close>

definition diffAt :: "ImageData \<Rightarrow> ImageData \<Rightarrow> nat \<Rightarrow> real option" where
  "diffAt currentFrame prevFrame i =
     (let rDiff = absDiff (byteAt currentFrame i) (byteAt prevFrame i);
          gDiff = absDiff (byteAt currentFrame (i + 1)) (byteAt prevFrame (i + 1));
          bDiff = absDiff (byteAt currentFrame (i + 2)) (byteAt prevFrame (i + 2))
      in average3 rDiff gDiff bDiff)"

definition samplePixel :: "ImageData \<Rightarrow> ImageData \<Rightarrow> nat \<Rightarrow> nat \<Rightarrow> nat \<Rightarrow> Motion \<Rightarrow> Motion" where
  "samplePixel currentFrame prevFrame width y x m =
     (let i = (y * width + x) * 4;
          diff = diffAt currentFrame prevFrame i
      in if exceeds diff threshold then
           m\<lparr>motionX := motionX m + (int width - int x),
             motionY := motionY m + int y,
             motionCount := motionCount m + 1\<rparr>
         else m)"

function scanRow :: "ImageData \<Rightarrow> ImageData \<Rightarrow> nat \<Rightarrow> nat \<Rightarrow> nat \<Rightarrow> Motion \<Rightarrow> Motion" where
  "scanRow currentFrame prevFrame width y x m =
     (if x < width then
        scanRow currentFrame prevFrame width y (x + step)
          (samplePixel currentFrame prevFrame width y x m)
      else m)"
  by pat_completeness auto
termination
  by (relation "measure (\<lambda>(c, p, w, y, x, m). w - x)") (auto simp: step_def)

declare scanRow.simps [simp del]

function scanRows :: "ImageData \<Rightarrow> ImageData \<Rightarrow> nat \<Rightarrow> nat \<Rightarrow> nat \<Rightarrow> Motion \<Rightarrow> Motion" where
  "scanRows currentFrame prevFrame width height y m =
     (if y < height then
        scanRows currentFrame prevFrame width height (y + step)
          (scanRow currentFrame prevFrame width y 0 m)
      else m)"
  by pat_completeness auto
termination
  by (relation "measure (\<lambda>(c, p, w, h, y, m). h - y)") (auto simp: step_def)

declare scanRows.simps [simp del]

definition findMotion :: "ImageData \<Rightarrow> ImageData \<Rightarrow> nat \<Rightarrow> nat \<Rightarrow> Motion" where
  "findMotion currentFrame prevFrame width height =
     scanRows currentFrame prevFrame width height 0
       \<lparr>motionX = 0, motionY = 0, motionCount = 0\<rparr>"

text \<open>Lines 81 to 92: the argument \<open>onHandUpdateRef.current\<close> is called with.\<close>

definition handOf :: "Video \<Rightarrow> Canvas \<Rightarrow> Motion \<Rightarrow> HandData option" where
  "handOf video canvas m =
     (if motionCount m > 30 then
        (let scaleX = real (videoWidth video) / real (canvasWidth canvas);
             scaleY = real (videoHeight video) / real (canvasHeight canvas)
         in Some \<lparr>dataX = (real_of_int (motionX m) / real (motionCount m)) * scaleX,
                  dataY = (real_of_int (motionY m) / real (motionCount m)) * scaleY,
                  dataIsOpen = motionCount m > 150\<rparr>)
      else None)"

text \<open>
  The refs of the hook. \<open>animationRef\<close> is whether a frame request is pending, and
  \<open>streamRef\<close> whether a camera stream is held.
\<close>

record HandTracking =
  videoRef :: "Video option"
  streamRef :: bool
  canvasRef :: "Canvas option"
  animationRef :: bool
  prevFrameRef :: "ImageData option"
  isRunningRef :: bool
  isActive :: bool

text \<open>
  One call of \<open>processFrame\<close>. The callback \<open>onHandUpdate\<close> acts on the state \<open>w\<close>
  of whoever installed it. The surroundings give \<open>hasContext\<close>, whether
  \<open>getContext\<close> returns a context, and \<open>captured\<close>, the frame \<open>getImageData\<close>
  returns, \<open>None\<close> when \<open>drawImage\<close> or \<open>getImageData\<close> throws (the exception is
  caught and the tick does nothing more than ask for the next frame).
\<close>

definition processFrame ::
  "(HandData option \<Rightarrow> 'w \<Rightarrow> 'w) \<Rightarrow> bool \<Rightarrow> ImageData option \<Rightarrow> HandTracking \<times> 'w
     \<Rightarrow> HandTracking \<times> 'w" where
  "processFrame onHandUpdate hasContext captured s =
     (case s of (t, w) \<Rightarrow>
        if \<not> isRunningRef t then (t, w)
        else
          (case videoRef t of
             None \<Rightarrow> (t\<lparr>animationRef := True\<rparr>, w)
           | Some video \<Rightarrow>
               (case canvasRef t of
                  None \<Rightarrow> (t\<lparr>animationRef := True\<rparr>, w)
                | Some canvas \<Rightarrow>
                    if paused video \<or> ended video \<or> readyState video < 2 then
                      (t\<lparr>animationRef := True\<rparr>, w)
                    else if \<not> hasContext then (t\<lparr>animationRef := True\<rparr>, w)
                    else
                      (case captured of
                         None \<Rightarrow> (t\<lparr>animationRef := True\<rparr>, w)
                       | Some currentFrame \<Rightarrow>
                           (let w' =
                                  (case prevFrameRef t of
                                     None \<Rightarrow> w
                                   | Some prevFrame \<Rightarrow>
                                       onHandUpdate
                                         (handOf video canvas
                                           (findMotion currentFrame prevFrame
                                             (canvasWidth canvas) (canvasHeight canvas)))
                                         w)
                            in (t\<lparr>prevFrameRef := Some currentFrame, animationRef := True\<rparr>,
                                w'))))))"

text \<open>
  \<open>initialize\<close>, on the path where the camera stream arrives and the video plays:
  the refs as they are after line 157.
\<close>

definition initialize :: "Video \<Rightarrow> HandTracking \<Rightarrow> HandTracking" where
  "initialize video t =
     (if isRunningRef t then t
      else t\<lparr>videoRef := Some video,
             streamRef := True,
             canvasRef := Some \<lparr>canvasWidth = 160, canvasHeight = 120\<rparr>,
             isRunningRef := True,
             animationRef := True,
             isActive := True\<rparr>)"

definition stop :: "HandTracking \<Rightarrow> HandTracking" where
  "stop t =
     t\<lparr>isRunningRef := False,
       animationRef := False,
       streamRef := False,
       videoRef := None,
       canvasRef := None,
       prevFrameRef := None,
       isActive := False\<rparr>"

text \<open>The refs of a freshly mounted hook (lines 12 to 22).\<close>

definition mounted :: HandTracking where
  "mounted =
     \<lparr>videoRef = None, streamRef = False, canvasRef = None, animationRef = False,
      prevFrameRef = None, isRunningRef = False, isActive = False\<rparr>"

section \<open>Notions used in the statements\<close>

text \<open>
  The change of velocity made by the hand interaction alone, and the distance between
  a particle and the pointer.
\<close>

definition handDelta :: "real \<Rightarrow> real \<Rightarrow> HandPosition option \<Rightarrow> Particle \<Rightarrow> real \<times> real" where
  "handDelta interactionRadius interactionStrength hand particle =
     (vx (applyHand interactionRadius interactionStrength hand particle) - vx particle,
      vy (applyHand interactionRadius interactionStrength hand particle) - vy particle)"


text \<open>A particle at a given place and with a given velocity, everything else fixed.\<close>

definition particleAt :: "real \<Rightarrow> real \<Rightarrow> real \<Rightarrow> real \<Rightarrow> Particle" where
  "particleAt a b va vb =
     \<lparr>px = a, py = b, vx = va, vy = vb, radius = 2, color = ''hsl(185, 100%, 55%)'',
      alpha = 1, life = 0, maxLife = 100\<rparr>"

text \<open>
  The array and the generator at the moment the outer callback is entered for index
  \<open>n\<close>: the result of the first \<open>n\<close> rounds of the loop.
\<close>

fun updateSteps ::
  "real \<Rightarrow> real \<Rightarrow> real \<Rightarrow> real \<Rightarrow> HandPosition option \<Rightarrow> nat \<Rightarrow> Particle list \<times> random
     \<Rightarrow> Particle list \<times> random" where
  "updateSteps interactionRadius interactionStrength width height hand 0 s = s"
| "updateSteps interactionRadius interactionStrength width height hand (Suc n) s =
     (case updateSteps interactionRadius interactionStrength width height hand n s of
        (particles, g) \<Rightarrow>
          if n < length particles then
            (case updateParticle interactionRadius interactionStrength width height hand
                    particles n g of
               (p, g') \<Rightarrow> (particles[n := p], g'))
          else (particles, g))"

text \<open>
  The simultaneous update: every particle is updated against a copy of the array made
  before the tick; the generator is still used in the order of the indices.
\<close>

function snapshotFrom ::
  "real \<Rightarrow> real \<Rightarrow> real \<Rightarrow> real \<Rightarrow> HandPosition option \<Rightarrow> Particle list \<Rightarrow> nat
     \<Rightarrow> Particle list \<times> random \<Rightarrow> Particle list \<times> random" where
  "snapshotFrom interactionRadius interactionStrength width height hand snapshot i (particles, g) =
     (if i < length particles then
        (let (p, g') =
               updateParticle interactionRadius interactionStrength width height hand snapshot i g
         in snapshotFrom interactionRadius interactionStrength width height hand snapshot (Suc i)
              (particles[i := p], g'))
      else (particles, g))"
  by pat_completeness auto
termination
  by (relation "measure (\<lambda>(R, S, w, h, hand, snap, i, ps, g). length ps - i)") auto

declare snapshotFrom.simps [simp del]

definition updateParticlesSnapshot ::
  "real \<Rightarrow> real \<Rightarrow> real \<Rightarrow> real \<Rightarrow> ParticleSystem \<Rightarrow> ParticleSystem" where
  "updateParticlesSnapshot interactionRadius interactionStrength width height st =
     (let (particles, g) =
            snapshotFrom interactionRadius interactionStrength width height (handPositionRef st)
              (particlesRef st) 0 (particlesRef st, randomRef st)
      in st\<lparr>particlesRef := particles, randomRef := g\<rparr>)"

text \<open>
  Two particles 25 apart, the first moving 10 to the right in one tick, and no pointer;
  a single particle left outside a canvas of 100 by 100; a single particle under the
  pointer.
\<close>

definition pairState :: ParticleSystem where
  "pairState =
     \<lparr>particlesRef = [particleAt 100 100 (500 / 49) (- (1 / 49)), particleAt 125 100 0 0],
      handPositionRef = None,
      randomRef = (\<lambda>n. 0)\<rparr>"

definition resizedState :: ParticleSystem where
  "resizedState =
     \<lparr>particlesRef = [particleAt 300 (- 20) 0 0],
      handPositionRef = None,
      randomRef = (\<lambda>n. 0)\<rparr>"

definition coincidentState :: ParticleSystem where
  "coincidentState =
     \<lparr>particlesRef = [particleAt 200 200 1 1],
      handPositionRef = Some \<lparr>hx = 200, hy = 200, isOpen = True\<rparr>,
      randomRef = (\<lambda>n. 0)\<rparr>"

text \<open>The ranges in which initParticles leaves the fields of a particle.\<close>

definition fresh :: "real \<Rightarrow> real \<Rightarrow> Particle \<Rightarrow> bool" where
  "fresh width height p =
     (0 \<le> px p \<and> px p \<le> width \<and> 0 \<le> py p \<and> py p \<le> height \<and>
      - 1 \<le> vx p \<and> vx p \<le> 1 \<and> - 1 \<le> vy p \<and> vy p \<le> 1 \<and>
      1 \<le> radius p \<and> radius p \<le> 4 \<and>
      color p \<in> set PARTICLE_COLORS \<and>
      1 / 2 \<le> alpha p \<and> alpha p \<le> 1 \<and>
      0 \<le> life p \<and> life p < 100 \<and>
      100 \<le> maxLife p \<and> maxLife p \<le> 200)"

text \<open>A system that holds two particles, with a generator that always returns 1/2.\<close>

definition twoParticles :: ParticleSystem where
  "twoParticles =
     \<lparr>particlesRef = [particleAt 1 2 3 4, particleAt 5 6 7 8],
      handPositionRef = None,
      randomRef = (\<lambda>n. 1 / 2)\<rparr>"

text \<open>
  An empty system whose generator always returns the last double below 1.
\<close>

definition edgeState :: ParticleSystem where
  "edgeState =
     \<lparr>particlesRef = [], handPositionRef = None, randomRef = (\<lambda>n. 1 - 1 / 2 ^ 53)\<rparr>"

text \<open>
  The test of line 73 for the pixel at \<open>(x, y)\<close>; the sum of the three absolute
  differences the test averages; the pixels the two loops visit.
\<close>

definition motionPixel :: "ImageData \<Rightarrow> ImageData \<Rightarrow> nat \<Rightarrow> nat \<Rightarrow> nat \<Rightarrow> bool" where
  "motionPixel currentFrame prevFrame width x y =
     exceeds (diffAt currentFrame prevFrame ((y * width + x) * 4)) threshold"

definition sumAt :: "ImageData \<Rightarrow> ImageData \<Rightarrow> nat \<Rightarrow> real option" where
  "sumAt currentFrame prevFrame i =
     (case absDiff (byteAt currentFrame i) (byteAt prevFrame i) of
        None \<Rightarrow> None
      | Some r \<Rightarrow>
          (case absDiff (byteAt currentFrame (i + 1)) (byteAt prevFrame (i + 1)) of
             None \<Rightarrow> None
           | Some g \<Rightarrow>
               (case absDiff (byteAt currentFrame (i + 2)) (byteAt prevFrame (i + 2)) of
                  None \<Rightarrow> None
                | Some b \<Rightarrow> Some (r + g + b))))"

definition sampled :: "nat \<Rightarrow> nat \<Rightarrow> (nat \<times> nat) set" where
  "sampled width height = {x \<in> {..<width}. 4 dvd x} \<times> {y \<in> {..<height}. 4 dvd y}"

text \<open>
  A video that is playing, a frame of 160 by 120 black pixels, the hook after a
  successful start and one analysed frame, and a callback that records its arguments.
\<close>

definition readyVideo :: Video where
  "readyVideo =
     \<lparr>paused = False, ended = False, readyState = 4, videoWidth = 320, videoHeight = 240\<rparr>"

definition stillFrame :: ImageData where
  "stillFrame = replicate (160 * 120 * 4) 0"

definition watching :: HandTracking where
  "watching = (initialize readyVideo mounted)\<lparr>prevFrameRef := Some stillFrame\<rparr>"

definition logUpdate :: "HandData option \<Rightarrow> HandData option list \<Rightarrow> HandData option list" where
  "logUpdate hand calls = calls @ [hand]"

section \<open>Properties of the particle system\<close>

subsection \<open>The angle of the pointer force\<close>

lemma sqrt_sum_pos: "a \<noteq> 0 \<or> b \<noteq> 0 \<Longrightarrow> 0 < sqrt (a * a + b * b)"
  by (metis not_sum_squares_lt_zero real_sqrt_gt_0_iff sum_squares_eq_zero_iff linorder_neqE_linordered_idom)






lemma sqrt_2500: "sqrt 2500 = 50"
  by (rule real_sqrt_unique) simp_all


subsection \<open>The loop of updateParticles\<close>

lemma length_updateSteps:
  "length (fst (updateSteps R S w h hand n (ps, g))) = length ps"
  by (induction n) (auto split: prod.splits)

lemma updateFrom_done:
  "length ps \<le> i \<Longrightarrow> updateFrom R S w h hand i (ps, g) = (ps, g)"
  by (simp add: updateFrom.simps)

lemma updateFrom_steps:
  "i \<le> length ps \<Longrightarrow>
   updateFrom R S w h hand i (updateSteps R S w h hand i (ps, g)) = updateFrom R S w h hand 0 (ps, g)"
proof (induction i)
  case 0
  then show ?case by simp
next
  case (Suc i)
  obtain qs gi where q: "updateSteps R S w h hand i (ps, g) = (qs, gi)"
    by (cases "updateSteps R S w h hand i (ps, g)")
  have len: "length qs = length ps"
    using length_updateSteps [of R S w h hand i ps g] q by simp
  have "updateFrom R S w h hand i (qs, gi) = updateFrom R S w h hand 0 (ps, g)"
    using Suc q by simp
  moreover have "updateFrom R S w h hand i (qs, gi) =
      updateFrom R S w h hand (Suc i) (updateSteps R S w h hand (Suc i) (ps, g))"
    using Suc.prems len q
    by (subst updateFrom.simps) (simp split: prod.splits)
  ultimately show ?case by simp
qed

lemma updateFrom_eq_steps:
  "updateFrom R S w h hand 0 (ps, g) = updateSteps R S w h hand (length ps) (ps, g)"
proof -
  obtain qs gi where q: "updateSteps R S w h hand (length ps) (ps, g) = (qs, gi)"
    by (cases "updateSteps R S w h hand (length ps) (ps, g)")
  have len: "length qs = length ps"
    using length_updateSteps [of R S w h hand "length ps" ps g] q by simp
  have "updateFrom R S w h hand 0 (ps, g) = updateFrom R S w h hand (length ps) (qs, gi)"
    using updateFrom_steps [of "length ps" ps R S w h hand g] q by simp
  also have "\<dots> = (qs, gi)"
    using len by (simp add: updateFrom_done)
  finally show ?thesis using q by simp
qed

lemma updateSteps_untouched:
  "n \<le> j \<Longrightarrow> fst (updateSteps R S w h hand n (ps, g)) ! j = ps ! j"
  by (induction n) (auto split: prod.splits)

lemma updateSteps_kept:
  "j < n \<Longrightarrow> n \<le> m \<Longrightarrow>
   fst (updateSteps R S w h hand m (ps, g)) ! j = fst (updateSteps R S w h hand n (ps, g)) ! j"
proof (induction m)
  case 0
  then show ?case by simp
next
  case (Suc m)
  show ?case
  proof (cases "n = Suc m")
    case True
    then show ?thesis by simp
  next
    case False
    then have "n \<le> m" using Suc.prems by simp
    then have ih: "fst (updateSteps R S w h hand m (ps, g)) ! j
        = fst (updateSteps R S w h hand n (ps, g)) ! j"
      using Suc by simp
    have "j \<noteq> m" using Suc.prems \<open>n \<le> m\<close> by simp
    then have "fst (updateSteps R S w h hand (Suc m) (ps, g)) ! j
        = fst (updateSteps R S w h hand m (ps, g)) ! j"
      by (auto split: prod.splits)
    then show ?thesis using ih by simp
  qed
qed

lemma updateSteps_at:
  assumes "n < length ps"
  shows "fst (updateSteps R S w h hand (Suc n) (ps, g)) ! n =
         fst (updateParticle R S w h hand (fst (updateSteps R S w h hand n (ps, g))) n
                (snd (updateSteps R S w h hand n (ps, g))))"
proof -
  obtain qs gi where q: "updateSteps R S w h hand n (ps, g) = (qs, gi)"
    by (cases "updateSteps R S w h hand n (ps, g)")
  have len: "length qs = length ps"
    using length_updateSteps [of R S w h hand n ps g] q by simp
  show ?thesis
    using assms len q by (simp split: prod.splits)
qed

lemma updateSteps_prefix:
  assumes "n \<le> length ps"
  shows "fst (updateSteps R S w h hand n (ps, g)) =
         take n (fst (updateFrom R S w h hand 0 (ps, g))) @ drop n ps"
proof (rule nth_equalityI)
  show "length (fst (updateSteps R S w h hand n (ps, g))) =
        length (take n (fst (updateFrom R S w h hand 0 (ps, g))) @ drop n ps)"
    using assms by (simp add: updateFrom_eq_steps length_updateSteps)
next
  fix j
  assume "j < length (fst (updateSteps R S w h hand n (ps, g)))"
  then have j: "j < length ps" by (simp add: length_updateSteps)
  show "fst (updateSteps R S w h hand n (ps, g)) ! j =
        (take n (fst (updateFrom R S w h hand 0 (ps, g))) @ drop n ps) ! j"
  proof (cases "j < n")
    case True
    then show ?thesis
      using assms j updateSteps_kept [of j n "length ps" R S w h hand ps g]
      by (simp add: updateFrom_eq_steps nth_append length_updateSteps)
  next
    case False
    then show ?thesis
      using assms j updateSteps_untouched [of n j R S w h hand ps g]
      by (simp add: updateFrom_eq_steps nth_append length_updateSteps)
  qed
qed

lemma updateFrom_nth:
  assumes "i < length ps"
  shows "fst (updateFrom R S w h hand 0 (ps, g)) ! i =
         fst (updateParticle R S w h hand (fst (updateSteps R S w h hand i (ps, g))) i
                (snd (updateSteps R S w h hand i (ps, g))))"
  using assms updateSteps_kept [of i "Suc i" "length ps" R S w h hand ps g]
    updateSteps_at [OF assms, of R S w h hand g]
  by (simp add: updateFrom_eq_steps)

lemma bounce_bounds:
  assumes "0 \<le> width" "0 \<le> height"
  shows "0 \<le> px (bounce width height p) \<and> px (bounce width height p) \<le> width \<and>
         0 \<le> py (bounce width height p) \<and> py (bounce width height p) \<le> height"
  using assms by (simp add: bounce_def Let_def)

lemma updateLife_position:
  "px (fst (updateLife g p)) = px p \<and> py (fst (updateLife g p)) = py p"
  by (simp add: updateLife_def Let_def Math_random_def)

lemma updateParticle_bounds:
  assumes "0 \<le> width" "0 \<le> height"
  shows "0 \<le> px (fst (updateParticle R S width height hand ps i g)) \<and>
         px (fst (updateParticle R S width height hand ps i g)) \<le> width \<and>
         0 \<le> py (fst (updateParticle R S width height hand ps i g)) \<and>
         py (fst (updateParticle R S width height hand ps i g)) \<le> height"
  using bounce_bounds [OF assms] by (simp add: updateParticle_def updateLife_position)

lemma particlesRef_updateParticles:
  "particlesRef (updateParticles R S width height st) =
     fst (updateFrom R S width height (handPositionRef st) 0 (particlesRef st, randomRef st))"
  by (simp add: updateParticles_def split: prod.splits)

lemma length_updateParticles:
  "length (particlesRef (updateParticles R S width height st)) = length (particlesRef st)"
  by (simp add: particlesRef_updateParticles updateFrom_eq_steps length_updateSteps)

lemma sqrt_625: "sqrt 625 = 25"
  by (rule real_sqrt_unique) simp_all

lemma sqrt_225: "sqrt 225 = 15"
  by (rule real_sqrt_unique) simp_all

lemma pairState_sequential:
  "vx (particlesRef (updateParticles 150 (1 / 2) 800 600 pairState) ! 1) = 49 / 4000"
  by (simp add: particlesRef_updateParticles pairState_def updateFrom.simps updateParticle_def
      applyHand_def separation_def integrate_def bounce_def updateLife_def particleAt_def
      Let_def sqrt_625 sqrt_225)

lemma pairState_snapshot:
  "vx (particlesRef (updateParticlesSnapshot 150 (1 / 2) 800 600 pairState) ! 1) = 0"
  by (simp add: updateParticlesSnapshot_def pairState_def snapshotFrom.simps updateParticle_def
      applyHand_def separation_def integrate_def bounce_def updateLife_def particleAt_def
      Let_def sqrt_625 sqrt_225)


subsection \<open>Claims about the pointer force\<close>

text \<open>
  C1 (as amended). In the reference scenario, with an interaction radius of 150, an
  interaction strength of 0.5, a closed hand at (200, 200) and a particle at (250, 200),
  the hand interaction changes the velocity of the particle by \<open>cos 0 * ((150 - 50) / 150)
  * 0.5 * (-1) = -1/3\<close> on x and by 0 on y: the angle is \<open>atan2 0 50 = 0\<close>, not
  \<open>\<pi>\<close>, and the particle is pulled to the left, towards the pointer.
\<close>

theorem pointer_force_scenario:
  assumes "px p = 250" "py p = 200"
  shows "handDelta 150 0.5 (Some \<lparr>hx = 200, hy = 200, isOpen = False\<rparr>) p = (- (1 / 3), 0)"
  using assms by (simp add: handDelta_def applyHand_def Let_def sqrt_2500 atan2_def)

theorem pointer_force_scenario_witness:
  "px (particleAt 250 200 0 0) = 250 \<and> py (particleAt 250 200 0 0) = 200 \<and>
   handDelta 150 0.5 (Some \<lparr>hx = 200, hy = 200, isOpen = False\<rparr>) (particleAt 250 200 0 0)
     = (- (1 / 3), 0)"
  using pointer_force_scenario [of "particleAt 250 200 0 0"] by (simp add: particleAt_def)

text \<open>
  C1 as stated fails: in the scenario the change of the x velocity is not \<open>+1/3\<close>.
\<close>

theorem pointer_force_scenario_counterexample:
  "fst (handDelta 150 0.5 (Some \<lparr>hx = 200, hy = 200, isOpen = False\<rparr>) (particleAt 250 200 0 0))
     \<noteq> 1 / 3"
  by (simp add: handDelta_def applyHand_def particleAt_def Let_def sqrt_2500 atan2_def)




lemma updateParticle_coincident:
  assumes "px (ps ! i) = hx h" "py (ps ! i) = hy h"
  shows "updateParticle R S width height (Some h) ps i g = updateParticle R S width height None ps i g"
  using assms by (simp add: updateParticle_def applyHand_def)

text \<open>
  C7. A particle whose position is the position of the pointer gets no change of
  velocity from the hand interaction, and after the tick it is what the tick computes
  for it with the hand interaction left out (on the array as it is when its turn comes):
  the guard \<open>distance > 0\<close> keeps the division and the angle from being evaluated.
\<close>

theorem zero_distance_guard:
  assumes "handPositionRef st = Some h" "i < length (particlesRef st)"
    and "px (particlesRef st ! i) = hx h" "py (particlesRef st ! i) = hy h"
  shows "handDelta R S (handPositionRef st) (particlesRef st ! i) = (0, 0) \<and>
         (case updateSteps R S width height (handPositionRef st) i (particlesRef st, randomRef st) of
            (qs, gi) \<Rightarrow>
              particlesRef (updateParticles R S width height st) ! i =
                fst (updateParticle R S width height None qs i gi))"
proof -
  obtain qs gi where q:
    "updateSteps R S width height (handPositionRef st) i (particlesRef st, randomRef st) = (qs, gi)"
    by (cases "updateSteps R S width height (handPositionRef st) i (particlesRef st, randomRef st)")
  have "qs ! i = particlesRef st ! i"
    using updateSteps_untouched [of i i R S width height "handPositionRef st" "particlesRef st" "randomRef st"] q
    by simp
  then have "updateParticle R S width height (Some h) qs i gi = updateParticle R S width height None qs i gi"
    using assms(3,4) by (simp add: updateParticle_coincident)
  moreover have "particlesRef (updateParticles R S width height st) ! i =
      fst (updateParticle R S width height (handPositionRef st) qs i gi)"
    using updateFrom_nth [OF assms(2), of R S width height "handPositionRef st" "randomRef st"] q
    by (simp add: particlesRef_updateParticles)
  moreover have "handDelta R S (handPositionRef st) (particlesRef st ! i) = (0, 0)"
    using assms by (simp add: handDelta_def applyHand_def)
  ultimately show ?thesis
    using q assms(1) by simp
qed

theorem zero_distance_guard_witness:
  "handPositionRef coincidentState = Some \<lparr>hx = 200, hy = 200, isOpen = True\<rparr> \<and>
   0 < length (particlesRef coincidentState) \<and>
   px (particlesRef coincidentState ! 0) = hx \<lparr>hx = 200, hy = 200, isOpen = True\<rparr> \<and>
   py (particlesRef coincidentState ! 0) = hy \<lparr>hx = 200, hy = 200, isOpen = True\<rparr> \<and>
   handDelta 150 (1 / 2) (handPositionRef coincidentState) (particlesRef coincidentState ! 0) = (0, 0) \<and>
   (case updateSteps 150 (1 / 2) 800 600 (handPositionRef coincidentState) 0
           (particlesRef coincidentState, randomRef coincidentState) of
      (qs, gi) \<Rightarrow>
        particlesRef (updateParticles 150 (1 / 2) 800 600 coincidentState) ! 0 =
          fst (updateParticle 150 (1 / 2) 800 600 None qs 0 gi))"
proof -
  have a: "handPositionRef coincidentState = Some \<lparr>hx = 200, hy = 200, isOpen = True\<rparr>"
    by (simp add: coincidentState_def)
  have b: "0 < length (particlesRef coincidentState)"
    by (simp add: coincidentState_def)
  have c: "px (particlesRef coincidentState ! 0) = hx \<lparr>hx = 200, hy = 200, isOpen = True\<rparr>"
    by (simp add: coincidentState_def particleAt_def)
  have d: "py (particlesRef coincidentState ! 0) = hy \<lparr>hx = 200, hy = 200, isOpen = True\<rparr>"
    by (simp add: coincidentState_def particleAt_def)
  show ?thesis
    using a b c d zero_distance_guard [OF a b c d, of 150 "1 / 2" 800 600] by blast
qed

subsection \<open>Claims about the whole tick\<close>

text \<open>
  C2. After a tick on a canvas whose width and height are not negative, every particle
  is inside the canvas: \<open>0 \<le> x \<le> width\<close> and \<open>0 \<le> y \<le> height\<close>, whatever its
  position and velocity were before the tick.
\<close>

theorem positions_clamped:
  assumes "0 \<le> width" "0 \<le> height"
    and "p \<in> set (particlesRef (updateParticles R S width height st))"
  shows "0 \<le> px p \<and> px p \<le> width \<and> 0 \<le> py p \<and> py p \<le> height"
proof -
  obtain i where i: "i < length (particlesRef st)"
    and p: "p = particlesRef (updateParticles R S width height st) ! i"
    using assms(3) by (metis in_set_conv_nth length_updateParticles)
  have "p = fst (updateParticle R S width height (handPositionRef st)
                   (fst (updateSteps R S width height (handPositionRef st) i
                           (particlesRef st, randomRef st))) i
                   (snd (updateSteps R S width height (handPositionRef st) i
                           (particlesRef st, randomRef st))))"
    using i p by (simp add: particlesRef_updateParticles updateFrom_nth)
  then show ?thesis
    using updateParticle_bounds [OF assms(1,2)] by simp
qed

theorem positions_clamped_witness:
  "(0::real) \<le> 100 \<and> (0::real) \<le> 100 \<and>
   particlesRef (updateParticles 150 (1 / 2) 100 100 resizedState) ! 0
     \<in> set (particlesRef (updateParticles 150 (1 / 2) 100 100 resizedState)) \<and>
   px (particlesRef (updateParticles 150 (1 / 2) 100 100 resizedState) ! 0) = 100 \<and>
   py (particlesRef (updateParticles 150 (1 / 2) 100 100 resizedState) ! 0) = 0"
proof -
  have w: "(0::real) \<le> 100" by simp
  have m: "particlesRef (updateParticles 150 (1 / 2) 100 100 resizedState) ! 0
             \<in> set (particlesRef (updateParticles 150 (1 / 2) 100 100 resizedState))"
    by (rule nth_mem) (simp add: length_updateParticles resizedState_def)
  have v: "px (particlesRef (updateParticles 150 (1 / 2) 100 100 resizedState) ! 0) = 100 \<and>
           py (particlesRef (updateParticles 150 (1 / 2) 100 100 resizedState) ! 0) = 0"
    by (simp add: particlesRef_updateParticles resizedState_def updateFrom.simps updateParticle_def
      applyHand_def integrate_def bounce_def updateLife_def particleAt_def Let_def)
  show ?thesis
    using w m v positions_clamped [OF w w m] by simp
qed

text \<open>
  C4 (as amended). A tick updates the particles one after the other, in the order of the
  array and in place: when the turn of the particle at index \<open>i\<close> comes, the array
  holds the states after the tick of the particles before \<open>i\<close> and the states before the
  tick of the others, and the state of particle \<open>i\<close> after the tick is the update of one
  particle computed on that array.
\<close>

theorem tick_sequential:
  assumes "i < length (particlesRef st)"
  shows "(case updateSteps R S width height (handPositionRef st) i (particlesRef st, randomRef st) of
            (qs, gi) \<Rightarrow>
              qs = take i (particlesRef (updateParticles R S width height st)) @ drop i (particlesRef st) \<and>
              particlesRef (updateParticles R S width height st) ! i =
                fst (updateParticle R S width height (handPositionRef st) qs i gi))"
proof -
  obtain qs gi where q:
    "updateSteps R S width height (handPositionRef st) i (particlesRef st, randomRef st) = (qs, gi)"
    by (cases "updateSteps R S width height (handPositionRef st) i (particlesRef st, randomRef st)")
  have "qs = take i (particlesRef (updateParticles R S width height st)) @ drop i (particlesRef st)"
    using assms q
      updateSteps_prefix [of i "particlesRef st" R S width height "handPositionRef st" "randomRef st"]
    by (simp add: particlesRef_updateParticles)
  moreover have "particlesRef (updateParticles R S width height st) ! i =
      fst (updateParticle R S width height (handPositionRef st) qs i gi)"
    using q updateFrom_nth [OF assms, of R S width height "handPositionRef st" "randomRef st"]
    by (simp add: particlesRef_updateParticles)
  ultimately show ?thesis
    by (simp add: q)
qed

theorem tick_sequential_witness:
  "1 < length (particlesRef pairState) \<and>
   (case updateSteps 150 (1 / 2) 800 600 (handPositionRef pairState) 1
           (particlesRef pairState, randomRef pairState) of
      (qs, gi) \<Rightarrow>
        qs = take 1 (particlesRef (updateParticles 150 (1 / 2) 800 600 pairState))
               @ drop 1 (particlesRef pairState) \<and>
        particlesRef (updateParticles 150 (1 / 2) 800 600 pairState) ! 1 =
          fst (updateParticle 150 (1 / 2) 800 600 (handPositionRef pairState) qs 1 gi))"
proof -
  have h: "1 < length (particlesRef pairState)" by (simp add: pairState_def)
  show ?thesis
    using h tick_sequential [OF h, of 150 "1 / 2" 800 600] by blast
qed

text \<open>
  C4 as stated fails: the tick is not the simultaneous update from a copy of the array.
  The first particle moves to within 20 of the second, which is then pushed away from
  where the first particle is now; against the copy it is not pushed at all.
\<close>

theorem tick_snapshot_counterexample:
  "updateParticles 150 (1 / 2) 800 600 pairState \<noteq> updateParticlesSnapshot 150 (1 / 2) 800 600 pairState"
proof
  assume "updateParticles 150 (1 / 2) 800 600 pairState = updateParticlesSnapshot 150 (1 / 2) 800 600 pairState"
  then have "vx (particlesRef (updateParticles 150 (1 / 2) 800 600 pairState) ! 1) =
             vx (particlesRef (updateParticlesSnapshot 150 (1 / 2) 800 600 pairState) ! 1)"
    by simp
  then show False
    unfolding pairState_sequential pairState_snapshot by simp
qed

subsection \<open>Rounding to doubles\<close>

lemma roundEven_of_int: "roundEven (of_int n) = n"
  by (simp add: roundEven_def)

lemma roundEven_mono:
  assumes "x \<le> y"
  shows "roundEven x \<le> roundEven y"
proof (cases "\<lfloor>x\<rfloor> = \<lfloor>y\<rfloor>")
  case True
  then show ?thesis
    using assms by (auto simp: roundEven_def Let_def)
next
  case False
  then have lt: "\<lfloor>x\<rfloor> + 1 \<le> \<lfloor>y\<rfloor>"
    using assms floor_mono [OF assms] by linarith
  have "roundEven x \<le> \<lfloor>x\<rfloor> + 1"
    by (simp add: roundEven_def Let_def)
  moreover have "\<lfloor>y\<rfloor> \<le> roundEven y"
    by (simp add: roundEven_def Let_def)
  ultimately show ?thesis using lt by linarith
qed

lemma roundEven_uminus: "roundEven (- y) = - roundEven y"
proof (cases "y = of_int \<lfloor>y\<rfloor>")
  case True
  then obtain n where "y = of_int n" by blast
  then have "- y = of_int (- n)" by simp
  then show ?thesis
    using \<open>y = of_int n\<close> by (simp only: roundEven_of_int)
next
  case False
  then have f: "\<lfloor>- y\<rfloor> = - \<lfloor>y\<rfloor> - 1"
    by (metis Ints_of_int ceiling_altdef ceiling_def minus_diff_eq minus_minus diff_minus_eq_add add.inverse_inverse uminus_add_conv_diff floor_of_int of_int_floor_cancel)
  show ?thesis
    unfolding roundEven_def Let_def f
    by (auto simp: algebra_simps) 
qed


lemma binade:
  assumes "x \<noteq> 0"
  shows "2 powi \<lfloor>log 2 \<bar>x\<bar>\<rfloor> \<le> \<bar>x\<bar> \<and> \<bar>x\<bar> < 2 powi (\<lfloor>log 2 \<bar>x\<bar>\<rfloor> + 1)"
proof -
  have "2 powr real_of_int \<lfloor>log 2 \<bar>x\<bar>\<rfloor> \<le> \<bar>x\<bar> \<and>
        \<bar>x\<bar> < 2 powr (real_of_int \<lfloor>log 2 \<bar>x\<bar>\<rfloor> + 1)"
    using assms floor_log_eq_powr_iff [of "\<bar>x\<bar>" 2 "\<lfloor>log 2 \<bar>x\<bar>\<rfloor>"] by simp
  moreover have "real_of_int \<lfloor>log 2 \<bar>x\<bar>\<rfloor> + 1 = real_of_int (\<lfloor>log 2 \<bar>x\<bar>\<rfloor> + 1)"
    by simp
  ultimately show ?thesis
    by (simp only: powr_real_of_int' [of 2, simplified])
qed

lemma binade_unique:
  assumes "2 powi k \<le> \<bar>x\<bar>" "\<bar>x\<bar> < 2 powi (k + 1)"
  shows "\<lfloor>log 2 \<bar>x\<bar>\<rfloor> = k"
proof -
  have pos: "0 < \<bar>x\<bar>"
    using assms(1) by (smt (verit) zero_less_power_int)
  have "2 powr real_of_int k \<le> \<bar>x\<bar> \<and> \<bar>x\<bar> < 2 powr (real_of_int k + 1)"
    using assms powr_real_of_int' [of 2 k] powr_real_of_int' [of 2 "k + 1"] by simp
  then show ?thesis
    using pos floor_log_eq_powr_iff [of "\<bar>x\<bar>" 2 k] by simp
qed

lemma ulp_pos: "0 < ulp x"
  by (simp add: ulp_def)

lemma ulp_uminus: "ulp (- x) = ulp x"
  by (simp add: ulp_def)

lemma fl_uminus: "fl (- x) = - fl x"
  by (simp add: fl_def ulp_uminus roundEven_uminus)

lemma fl_binade:
  assumes "2 powi k \<le> \<bar>x\<bar>" "\<bar>x\<bar> < 2 powi (k + 1)" "- 1022 \<le> k"
  shows "fl x = 2 powi (k - 52) * of_int (roundEven (x / 2 powi (k - 52)))"
proof -
  have "x \<noteq> 0"
    using assms(1) by (smt (verit) zero_less_power_int)
  moreover have "ulp x = 2 powi (k - 52)"
    using binade_unique [OF assms(1,2)] assms(3) by (simp add: ulp_def max_def)
  ultimately show ?thesis
    by (simp add: fl_def)
qed

lemma fl_exact:
  assumes "2 powi k \<le> \<bar>x\<bar>" "\<bar>x\<bar> < 2 powi (k + 1)" "- 1022 \<le> k"
    and "x / 2 powi (k - 52) = of_int n"
  shows "fl x = x"
proof -
  have "fl x = 2 powi (k - 52) * of_int n"
    using fl_binade [OF assms(1-3)] by (simp only: assms(4) roundEven_of_int)
  also have "\<dots> = x"
    using assms(4) by (simp add: field_simps)
  finally show ?thesis .
qed


lemma two_powi_53: "(2::real) powi (e + 1) = 2 powi (e - 52) * of_int (2 ^ 53)"
proof -
  have "e + 1 = (e - 52) + 53" by linarith
  then have "(2::real) powi (e + 1) = 2 powi ((e - 52) + 53)" by (simp only:)
  also have "\<dots> = 2 powi (e - 52) * 2 powi 53"
    by (subst power_int_add) simp_all
  finally show ?thesis by simp
qed

lemma two_powi_52: "(2::real) powi e = 2 powi (e - 52) * of_int (2 ^ 52)"
proof -
  have "e = (e - 52) + 52" by linarith
  then have "(2::real) powi e = 2 powi ((e - 52) + 52)" by (simp only:)
  also have "\<dots> = 2 powi (e - 52) * 2 powi 52"
    by (subst power_int_add) simp_all
  finally show ?thesis by simp
qed

lemma fl_pos_upper:
  assumes "0 < x"
  shows "fl x \<le> 2 powi (max \<lfloor>log 2 \<bar>x\<bar>\<rfloor> (- 1022) + 1)"
proof -
  define e where "e = max \<lfloor>log 2 \<bar>x\<bar>\<rfloor> (- 1022)"
  define u :: real where "u = 2 powi (e - 52)"
  have u: "ulp x = u" "0 < u" by (simp_all add: ulp_def e_def u_def)
  have "\<bar>x\<bar> < 2 powi (\<lfloor>log 2 \<bar>x\<bar>\<rfloor> + 1)"
    using binade [of x] assms by simp
  also have "\<dots> \<le> 2 powi (e + 1)"
    by (intro power_int_increasing) (simp_all add: e_def)
  finally have "\<bar>x\<bar> < u * of_int (2 ^ 53)"
    by (simp only: two_powi_53 u_def)
  then have "x < u * of_int (2 ^ 53)"
    using assms by linarith
  then have "x / u \<le> of_int (2 ^ 53)"
    using u(2) by (simp add: field_simps)
  then have "roundEven (x / u) \<le> 2 ^ 53"
    using roundEven_mono [of "x / u" "of_int (2 ^ 53)"] by (simp only: roundEven_of_int)
  then have "real_of_int (roundEven (x / u)) \<le> of_int (2 ^ 53)"
    by (simp only: of_int_le_iff)
  then have "u * real_of_int (roundEven (x / u)) \<le> u * of_int (2 ^ 53)"
    using u(2) by (intro mult_left_mono) simp_all
  then show ?thesis
    using assms by (simp only: fl_def u(1) two_powi_53 e_def [symmetric] u_def [symmetric]) simp
qed

lemma fl_pos_lower:
  assumes "0 < x" "- 1022 \<le> \<lfloor>log 2 \<bar>x\<bar>\<rfloor>"
  shows "2 powi \<lfloor>log 2 \<bar>x\<bar>\<rfloor> \<le> fl x"
proof -
  define e where "e = \<lfloor>log 2 \<bar>x\<bar>\<rfloor>"
  define u :: real where "u = 2 powi (e - 52)"
  have m: "max \<lfloor>log 2 \<bar>x\<bar>\<rfloor> (- 1022) = e"
    using assms(2) unfolding e_def by (rule max_absorb1)
  have u: "ulp x = u" "0 < u" by (simp_all add: ulp_def m u_def)
  have "2 powi e \<le> \<bar>x\<bar>"
    using binade [of x] assms(1) by (simp add: e_def)
  then have "u * of_int (2 ^ 52) \<le> \<bar>x\<bar>"
    by (simp only: two_powi_52 [of e] u_def)
  then have "u * of_int (2 ^ 52) \<le> x"
    using assms(1) by linarith
  then have "of_int (2 ^ 52) \<le> x / u"
    using u(2) by (simp add: field_simps)
  then have "2 ^ 52 \<le> roundEven (x / u)"
    using roundEven_mono [of "of_int (2 ^ 52)" "x / u"] by (simp only: roundEven_of_int)
  then have "of_int (2 ^ 52) \<le> real_of_int (roundEven (x / u))"
    by (simp only: of_int_le_iff)
  then have "u * of_int (2 ^ 52) \<le> u * real_of_int (roundEven (x / u))"
    using u(2) by (intro mult_left_mono) simp_all
  then show ?thesis
    using assms(1) by (simp only: fl_def u(1) e_def [symmetric] two_powi_52 [of e] u_def [symmetric]) simp
qed

lemma fl_nonneg:
  assumes "0 \<le> x"
  shows "0 \<le> fl x"
proof (cases "x = 0")
  case True
  then show ?thesis by (simp add: fl_def)
next
  case False
  have "0 \<le> x / ulp x"
    using assms ulp_pos [of x] by simp
  then have "roundEven 0 \<le> roundEven (x / ulp x)"
    by (rule roundEven_mono)
  then have "0 \<le> roundEven (x / ulp x)"
    using roundEven_of_int [of 0] by simp
  then show ?thesis
    using False ulp_pos [of x] by (simp add: fl_def)
qed

lemma fl_mono_pos:
  assumes "0 < x" "x \<le> y"
  shows "fl x \<le> fl y"
proof -
  define ex where "ex = max \<lfloor>log 2 \<bar>x\<bar>\<rfloor> (- 1022)"
  define ey where "ey = max \<lfloor>log 2 \<bar>y\<bar>\<rfloor> (- 1022)"
  have "log 2 \<bar>x\<bar> \<le> log 2 \<bar>y\<bar>"
    using assms by simp
  then have fle: "\<lfloor>log 2 \<bar>x\<bar>\<rfloor> \<le> \<lfloor>log 2 \<bar>y\<bar>\<rfloor>"
    by (rule floor_mono)
  then have le: "ex \<le> ey"
    by (simp add: ex_def ey_def)
  show ?thesis
  proof (cases "ex = ey")
    case True
    then have u: "ulp x = ulp y"
      by (simp add: ulp_def ex_def ey_def)
    have "x / ulp y \<le> y / ulp y"
      using assms(2) ulp_pos [of y] by (simp add: divide_right_mono)
    then have "roundEven (x / ulp y) \<le> roundEven (y / ulp y)"
      by (rule roundEven_mono)
    then have "ulp y * real_of_int (roundEven (x / ulp y)) \<le> ulp y * real_of_int (roundEven (y / ulp y))"
      using ulp_pos [of y] by (intro mult_left_mono) simp_all
    then show ?thesis
      using assms by (simp add: fl_def u)
  next
    case False
    then have lt: "ex + 1 \<le> ey" using le by simp
    define F where "F = \<lfloor>log 2 \<bar>y\<bar>\<rfloor>"
    have "- 1022 \<le> ex" unfolding ex_def by linarith
    moreover have "ey = max F (- 1022)" by (simp add: ey_def F_def)
    ultimately have "- 1022 \<le> F" "ey = F"
      using lt by linarith+
    then have big: "- 1022 \<le> \<lfloor>log 2 \<bar>y\<bar>\<rfloor>" "ey = \<lfloor>log 2 \<bar>y\<bar>\<rfloor>"
      by (simp_all add: F_def)
    have "fl x \<le> 2 powi (ex + 1)"
      using fl_pos_upper [OF assms(1)] by (simp add: ex_def)
    also have "\<dots> \<le> 2 powi ey"
      using lt by (intro power_int_increasing) simp_all
    also have "\<dots> \<le> fl y"
      using fl_pos_lower [of y] assms big by simp
    finally show ?thesis .
  qed
qed

lemma fl_mono:
  assumes "x \<le> y"
  shows "fl x \<le> fl y"
proof -
  consider "0 < x" | "x \<le> 0" "0 \<le> y" | "y < 0"
    using assms by linarith
  then show ?thesis
  proof cases
    case 1
    then show ?thesis using assms by (rule fl_mono_pos)
  next
    case 2
    have "0 \<le> fl (- x)" using 2(1) by (intro fl_nonneg) simp
    then have "fl x \<le> 0" by (simp add: fl_uminus)
    moreover have "0 \<le> fl y" using 2(2) by (rule fl_nonneg)
    ultimately show ?thesis by linarith
  next
    case 3
    then have "fl (- y) \<le> fl (- x)"
      using assms by (intro fl_mono_pos) simp_all
    then show ?thesis by (simp add: fl_uminus)
  qed
qed


lemma fl_0: "fl 0 = 0"
  by (simp add: fl_def)

lemma fl_half: "fl (1 / 2) = 1 / 2"
  by (rule fl_exact [where k = "- 1" and n = "2 ^ 52"]) (simp_all add: power_int_def power_one_over)

lemma fl_1: "fl 1 = 1"
  by (rule fl_exact [where k = 0 and n = "2 ^ 52"]) (simp_all add: power_int_def power_one_over)

lemma fl_3: "fl 3 = 3"
  by (rule fl_exact [where k = 1 and n = "3 * 2 ^ 51"]) (simp_all add: power_int_def power_one_over)

lemma fl_4: "fl 4 = 4"
  by (rule fl_exact [where k = 2 and n = "2 ^ 52"]) (simp_all add: power_int_def power_one_over)

lemma fl_100: "fl 100 = 100"
  by (rule fl_exact [where k = 6 and n = "100 * 2 ^ 46"]) (simp_all add: power_int_def power_one_over)

lemma fl_200: "fl 200 = 200"
  by (rule fl_exact [where k = 7 and n = "200 * 2 ^ 45"]) (simp_all add: power_int_def power_one_over)

lemma fl_last_below_1: "fl (1 - 1 / 2 ^ 53) = 1 - 1 / 2 ^ 53"
  by (rule fl_exact [where k = "- 1" and n = "2 ^ 53 - 1"]) (simp_all add: power_int_def power_one_over)

lemma fl_5_edge: "fl ((1 - 1 / 2 ^ 53) * 5) = 5 - 1 / 2 ^ 50"
  by (subst fl_binade [where k = 2]) (simp_all add: power_int_def power_one_over roundEven_def Let_def)

lemma fl_100_edge: "fl ((1 - 1 / 2 ^ 53) * 100) = 100 - 1 / 2 ^ 46"
  by (subst fl_binade [where k = 6]) (simp_all add: power_int_def power_one_over roundEven_def Let_def)

lemma fl_200_edge: "fl (100 + (100 - 1 / 2 ^ 46)) = 200"
  by (subst fl_binade [where k = 7]) (simp_all add: power_int_def power_one_over roundEven_def Let_def)

lemma double_below_1:
  assumes "double r" "0 \<le> r" "r < 1"
  shows "r \<le> 1 - 1 / 2 ^ 53"
proof (cases "r = 0")
  case True
  then show ?thesis by simp
next
  case False
  define e where "e = \<lfloor>log 2 \<bar>r\<bar>\<rfloor>"
  have b: "2 powi e \<le> r" "r < 2 powi (e + 1)"
    using binade [OF False] assms(2) by (simp_all add: e_def)
  have "e < 0"
  proof (rule ccontr)
    assume "\<not> e < 0"
    then have "(2::real) powi 0 \<le> 2 powi e"
      by (intro power_int_increasing) simp_all
    then show False using b(1) assms(3) by simp
  qed
  show ?thesis
  proof (cases "e = - 1")
    case True
    then have u: "ulp r = 2 powi (- 53)"
      by (simp add: ulp_def e_def [symmetric])
    define n where "n = roundEven (r / ulp r)"
    have p: "(2::real) powi (- 53) = 1 / 2 ^ 53"
      by (simp add: power_int_def power_one_over)
    have r: "r = real_of_int n / 2 ^ 53"
      using assms(1) False by (simp add: double_def fl_def u n_def p)
    have "real_of_int n = r * 2 ^ 53"
      by (simp add: r)
    also have "\<dots> < 1 * 2 ^ 53"
      using assms(3) by (intro mult_strict_right_mono) simp_all
    finally have "real_of_int n < real_of_int (2 ^ 53)"
      by simp
    then have "n < 2 ^ 53"
      by (simp only: of_int_less_iff)
    then have "n \<le> 2 ^ 53 - 1"
      by simp
    then have "real_of_int n \<le> real_of_int (2 ^ 53 - 1)"
      by (simp only: of_int_le_iff)
    then have "real_of_int n / 2 ^ 53 \<le> real_of_int (2 ^ 53 - 1) / 2 ^ 53"
      by (intro divide_right_mono) simp_all
    then show ?thesis
      by (simp add: r)
  next
    case False
    then have "e + 1 \<le> - 1" using \<open>e < 0\<close> by simp
    then have "(2::real) powi (e + 1) \<le> 2 powi (- 1)"
      by (intro power_int_increasing) simp_all
    then have "r < 1 / 2" using b(2) by (simp add: power_int_def power_one_over)
    then show ?thesis by simp
  qed
qed

lemma fl_600: "fl 600 = 600"
  by (rule fl_exact [where k = 9 and n = "600 * 2 ^ 43"]) (simp_all add: power_int_def power_one_over)

lemma fl_800: "fl 800 = 800"
  by (rule fl_exact [where k = 9 and n = "800 * 2 ^ 43"]) (simp_all add: power_int_def power_one_over)

subsection \<open>initParticles\<close>

lemma fl_between:
  assumes "a \<le> x" "x \<le> b" "fl a = a" "fl b = b"
  shows "a \<le> fl x \<and> fl x \<le> b"
  using fl_mono [OF assms(1)] fl_mono [OF assms(2)] assms(3,4) by simp

lemma fl_minus_half: "fl (- (1 / 2)) = - (1 / 2)"
  using fl_uminus [of "1 / 2"] by (simp only: fl_half)

lemma fl_minus_1: "fl (- 1) = - 1"
  using fl_uminus [of 1] by (simp only: fl_1)

lemma scaled_le:
  fixes r w :: real
  assumes "0 \<le> r" "r < 1" "0 \<le> w"
  shows "0 \<le> r * w \<and> r * w \<le> w"
proof -
  have "r * w \<le> 1 * w" using assms by (intro mult_right_mono) simp_all
  then show ?thesis using assms by simp
qed

lemma color_index:
  assumes "double r" "0 \<le> r" "r < 1"
  shows "nat \<lfloor>fl (r * real (length PARTICLE_COLORS))\<rfloor> < length PARTICLE_COLORS"
proof -
  have len: "length PARTICLE_COLORS = 5"
    by (simp add: PARTICLE_COLORS_def)
  have "r * 5 \<le> (1 - 1 / 2 ^ 53) * 5"
    using double_below_1 [OF assms] by simp
  then have "fl (r * 5) \<le> 5 - 1 / 2 ^ 50"
    using fl_mono [of "r * 5" "(1 - 1 / 2 ^ 53) * 5"] by (simp only: fl_5_edge)
  then have "fl (r * 5) < 5" by simp
  then have "\<lfloor>fl (r * 5)\<rfloor> < 5" by (simp add: floor_less_iff)
  moreover have "0 \<le> fl (r * 5)"
    using assms(2) by (intro fl_nonneg) simp
  then have "0 \<le> \<lfloor>fl (r * 5)\<rfloor>" by simp
  ultimately have "nat \<lfloor>fl (r * 5)\<rfloor> < 5" by linarith
  then show ?thesis unfolding len by simp
qed

lemma newParticle_fields:
  "fst (newParticle width height g) =
     \<lparr>px = fl (g 0 * width),
      py = fl (g 1 * height),
      vx = fl (fl (g 2 - 0.5) * 2),
      vy = fl (fl (g 3 - 0.5) * 2),
      radius = fl (fl (g 4 * 3) + 1),
      color = PARTICLE_COLORS ! nat \<lfloor>fl (g 5 * real (length PARTICLE_COLORS))\<rfloor>,
      alpha = fl (fl (g 6 * 0.5) + 0.5),
      life = fl (g 7 * 100),
      maxLife = fl (100 + fl (g 8 * 100))\<rparr>"
  by (simp add: newParticle_def Math_random_def Let_def numeral_eq_Suc)

lemma velocity_range:
  assumes "0 \<le> r" "r < 1"
  shows "- 1 \<le> fl (fl (r - 0.5) * 2) \<and> fl (fl (r - 0.5) * 2) \<le> 1"
proof -
  have "- (1 / 2) \<le> fl (r - 0.5) \<and> fl (r - 0.5) \<le> 1 / 2"
    using assms by (intro fl_between fl_minus_half fl_half) simp_all
  then show ?thesis
    by (intro fl_between fl_minus_1 fl_1) simp_all
qed

lemma radius_range:
  assumes "0 \<le> r" "r < 1"
  shows "1 \<le> fl (fl (r * 3) + 1) \<and> fl (fl (r * 3) + 1) \<le> 4"
proof -
  have "0 \<le> fl (r * 3) \<and> fl (r * 3) \<le> 3"
    using assms by (intro fl_between fl_0 fl_3) simp_all
  then show ?thesis
    by (intro fl_between fl_1 fl_4) simp_all
qed

lemma alpha_range:
  assumes "0 \<le> r" "r < 1"
  shows "1 / 2 \<le> fl (fl (r * 0.5) + 0.5) \<and> fl (fl (r * 0.5) + 0.5) \<le> 1"
proof -
  have "0 \<le> fl (r * 0.5) \<and> fl (r * 0.5) \<le> 1 / 2"
    using assms by (intro fl_between fl_0 fl_half) simp_all
  then show ?thesis
    by (intro fl_between fl_half fl_1) simp_all
qed

lemma life_range:
  assumes "double r" "0 \<le> r" "r < 1"
  shows "0 \<le> fl (r * 100) \<and> fl (r * 100) \<le> 100 - 1 / 2 ^ 46"
proof -
  have "r * 100 \<le> (1 - 1 / 2 ^ 53) * 100"
    using double_below_1 [OF assms] by simp
  then have "fl (r * 100) \<le> 100 - 1 / 2 ^ 46"
    using fl_mono [of "r * 100" "(1 - 1 / 2 ^ 53) * 100"] by (simp only: fl_100_edge)
  moreover have "0 \<le> fl (r * 100)"
    using assms(2) by (intro fl_nonneg) simp
  ultimately show ?thesis by simp
qed

lemma maxLife_range:
  assumes "double r" "0 \<le> r" "r < 1"
  shows "100 \<le> fl (100 + fl (r * 100)) \<and> fl (100 + fl (r * 100)) \<le> 200"
proof -
  have "100 \<le> 100 + fl (r * 100)" "100 + fl (r * 100) \<le> 200"
    using life_range [OF assms] by simp_all
  then show ?thesis
    by (intro fl_between fl_100 fl_200)
qed

lemma newParticle_fresh:
  assumes "unit_random g" "double_random g" "double width" "double height"
    and "0 \<le> width" "0 \<le> height"
  shows "fresh width height (fst (newParticle width height g))"
proof -
  have r: "0 \<le> g n \<and> g n < 1" for n
    using assms(1) by (simp add: unit_random_def)
  have d: "double (g n)" for n
    using assms(2) by (simp add: double_random_def)
  have w: "fl width = width" "fl height = height"
    using assms(3,4) by (simp_all add: double_def)
  have x: "0 \<le> fl (g 0 * width) \<and> fl (g 0 * width) \<le> width"
    using scaled_le [of "g 0" width] r [of 0] assms(5) by (intro fl_between fl_0 w) simp_all
  have y: "0 \<le> fl (g 1 * height) \<and> fl (g 1 * height) \<le> height"
    using scaled_le [of "g 1" height] r [of 1] assms(6) by (intro fl_between fl_0 w) simp_all
  have c: "PARTICLE_COLORS ! nat \<lfloor>fl (g 5 * real (length PARTICLE_COLORS))\<rfloor> \<in> set PARTICLE_COLORS"
    using color_index [of "g 5"] d [of 5] r [of 5] by (intro nth_mem) simp
  have l: "fl (g 7 * 100) < 100"
    using life_range [of "g 7"] d [of 7] r [of 7] by simp
  show ?thesis
    unfolding newParticle_fields fresh_def
    using x y c l velocity_range [of "g 2"] velocity_range [of "g 3"] radius_range [of "g 4"]
      alpha_range [of "g 6"] life_range [of "g 7"] maxLife_range [of "g 8"] r d
    by simp
qed

lemma unit_random_shift: "unit_random g \<Longrightarrow> unit_random (\<lambda>n. g (Suc n))"
  by (simp add: unit_random_def)

lemma newParticle_random:
  "unit_random g \<Longrightarrow> unit_random (snd (newParticle width height g))"
  by (simp add: newParticle_def Math_random_def Let_def unit_random_def)

lemma newParticle_double_random:
  "double_random g \<Longrightarrow> double_random (snd (newParticle width height g))"
  by (simp add: newParticle_def Math_random_def Let_def double_random_def)

lemma initFrom_spec:
  assumes "unit_random g" "double_random g" "double width" "double height"
    and "0 \<le> width" "0 \<le> height"
  shows "\<exists>new. fst (initFrom n width height i (acc, g)) = acc @ new \<and>
           length new = n - i \<and> (\<forall>p \<in> set new. fresh width height p)"
  using assms
proof (induction n width height i "(acc, g)" arbitrary: acc g rule: initFrom.induct)
  case (1 n width height i acc g)
  show ?case
  proof (cases "i < n")
    case False
    then show ?thesis by (simp add: initFrom.simps)
  next
    case True
    obtain p g' where pg: "newParticle width height g = (p, g')"
      by (cases "newParticle width height g")
    have fp: "fresh width height p"
      using newParticle_fresh [OF "1.prems"] pg by simp
    have ug: "unit_random g'"
      using newParticle_random [OF "1.prems"(1), of width height] pg by simp
    have dg: "double_random g'"
      using newParticle_double_random [OF "1.prems"(2), of width height] pg by simp
    obtain new where new: "fst (initFrom n width height (Suc i) (acc @ [p], g')) = (acc @ [p]) @ new"
      "length new = n - Suc i" "\<forall>q \<in> set new. fresh width height q"
      using "1.hyps" [OF True pg [symmetric] refl ug dg "1.prems"(3-6)] by blast
    have "fst (initFrom n width height i (acc, g)) = acc @ (p # new)"
      using True pg new(1) by (subst initFrom.simps) simp
    moreover have "length (p # new) = n - i"
      using True new(2) by simp
    moreover have "\<forall>q \<in> set (p # new). fresh width height q"
      using fp new(3) by simp
    ultimately show ?thesis by blast
  qed
qed

lemma particlesRef_initParticles:
  "particlesRef (initParticles n width height st) = fst (initFrom n width height 0 ([], randomRef st))"
  by (simp add: initParticles_def split: prod.splits)

lemma double_canvas: "double 800 \<and> double 600"
  by (simp add: double_def fl_800 fl_600)

lemma double_last_below_1: "double (1 - 1 / 2 ^ 53)"
  unfolding double_def
proof (intro conjI)
  show "fl (1 - 1 / 2 ^ 53) = 1 - 1 / 2 ^ 53"
    by (rule fl_last_below_1)
  show "\<bar>1 - 1 / 2 ^ 53 :: real\<bar> < 2 ^ 1024"
    by simp
qed

lemma initParticles_first:
  "particlesRef (initParticles 1 width height st) ! 0 = fst (newParticle width height (randomRef st))"
  by (simp add: particlesRef_initParticles initFrom.simps split: prod.splits)

text \<open>
  C8 (as amended). With a canvas whose width and height are doubles that are not
  negative and a generator whose values are doubles in \<open>[0, 1)\<close>, initParticles makes
  exactly \<open>particleCount\<close> particles, each with its position in \<open>[0, width] \<times> [0,
  height]\<close>, both velocity components in \<open>[-1, 1]\<close>, a radius in \<open>[1, 4]\<close>, a colour
  of the palette of five, an alpha in \<open>[0.5, 1]\<close>, a life in \<open>[0, 100)\<close> and a maximal
  life in \<open>[100, 200]\<close>, 200 included; the new array replaces the old one in one
  assignment and does not depend on it.
\<close>

theorem initParticles_ranges:
  assumes "unit_random (randomRef st)" "double_random (randomRef st)"
    and "double width" "double height" "0 \<le> width" "0 \<le> height"
  shows "length (particlesRef (initParticles particleCount width height st)) = particleCount \<and>
         (\<forall>p \<in> set (particlesRef (initParticles particleCount width height st)).
            0 \<le> px p \<and> px p \<le> width \<and> 0 \<le> py p \<and> py p \<le> height \<and>
            - 1 \<le> vx p \<and> vx p \<le> 1 \<and> - 1 \<le> vy p \<and> vy p \<le> 1 \<and>
            1 \<le> radius p \<and> radius p \<le> 4 \<and>
            color p \<in> set PARTICLE_COLORS \<and>
            1 / 2 \<le> alpha p \<and> alpha p \<le> 1 \<and>
            0 \<le> life p \<and> life p < 100 \<and>
            100 \<le> maxLife p \<and> maxLife p \<le> 200) \<and>
         length PARTICLE_COLORS = 5 \<and>
         particlesRef (initParticles particleCount width height (st\<lparr>particlesRef := old\<rparr>)) =
           particlesRef (initParticles particleCount width height st)"
proof -
  obtain new where new: "fst (initFrom particleCount width height 0 ([], randomRef st)) = [] @ new"
      "length new = particleCount - 0" "\<forall>p \<in> set new. fresh width height p"
    using initFrom_spec [OF assms, of particleCount 0 "[]"] by blast
  have a: "length (particlesRef (initParticles particleCount width height st)) = particleCount"
    using new by (simp add: particlesRef_initParticles)
  have b: "\<forall>p \<in> set (particlesRef (initParticles particleCount width height st)). fresh width height p"
    using new by (simp add: particlesRef_initParticles)
  have c: "length PARTICLE_COLORS = 5"
    by (simp add: PARTICLE_COLORS_def)
  have d: "particlesRef (initParticles particleCount width height (st\<lparr>particlesRef := old\<rparr>)) =
           particlesRef (initParticles particleCount width height st)"
    by (simp add: particlesRef_initParticles)
  show ?thesis
    using a b c d unfolding fresh_def by blast
qed

theorem initParticles_ranges_witness:
  "unit_random (randomRef twoParticles) \<and> double_random (randomRef twoParticles) \<and>
   double 800 \<and> double 600 \<and> (0::real) \<le> 800 \<and> (0::real) \<le> 600 \<and>
   length (particlesRef (initParticles 2 800 600 twoParticles)) = 2 \<and>
   px (particlesRef (initParticles 2 800 600 twoParticles) ! 1) \<le> 800 \<and>
   maxLife (particlesRef (initParticles 2 800 600 twoParticles) ! 1) \<le> 200 \<and>
   particlesRef (initParticles 2 800 600 (twoParticles\<lparr>particlesRef := []\<rparr>)) =
     particlesRef (initParticles 2 800 600 twoParticles)"
proof -
  have u: "unit_random (randomRef twoParticles)"
    by (simp add: twoParticles_def unit_random_def)
  have v: "double_random (randomRef twoParticles)"
    by (simp add: twoParticles_def double_random_def double_def fl_half)
  have dw: "double 800" and dh: "double 600"
    using double_canvas by simp_all
  have w: "(0::real) \<le> 800" and h: "(0::real) \<le> 600"
    by simp_all
  note t = initParticles_ranges [OF u v dw dh w h, of 2 "[]"]
  have "particlesRef (initParticles 2 800 600 twoParticles) ! 1
          \<in> set (particlesRef (initParticles 2 800 600 twoParticles))"
    using t by (intro nth_mem) simp
  then show ?thesis
    using u v dw dh w h t by blast
qed

text \<open>
  C8 as stated fails: when the generator returns \<open>1 - 2^-53\<close>, the last double below
  1, the product with 100 rounds to \<open>100 - 2^-46\<close> and the sum with 100, which lies
  half way between two doubles, rounds to 200: the maximal life is not below 200.
\<close>

theorem initParticles_ranges_counterexample:
  "unit_random (randomRef edgeState) \<and> double_random (randomRef edgeState) \<and>
   double 800 \<and> double 600 \<and>
   maxLife (particlesRef (initParticles 1 800 600 edgeState) ! 0) = 200"
proof -
  have u: "unit_random (randomRef edgeState)"
    by (simp add: edgeState_def unit_random_def)
  have v: "double_random (randomRef edgeState)"
    unfolding edgeState_def double_random_def using double_last_below_1 by simp
  have "maxLife (particlesRef (initParticles 1 800 600 edgeState) ! 0) =
          fl (100 + fl ((1 - 1 / 2 ^ 53) * 100))"
    by (simp only: initParticles_first newParticle_fields) (simp add: edgeState_def)
  also have "\<dots> = 200"
    by (simp only: fl_100_edge fl_200_edge)
  finally show ?thesis
    using u v double_canvas by simp
qed

subsection \<open>renderParticles\<close>

lemma sqrt_25: "sqrt 25 = 5"
  by (rule real_sqrt_unique) simp_all

text \<open>
  C5, on the code: for two particles at (0, 0) and (3, 4), which are 5 apart, the path
  that is stroked starts at (0, 4), the x of the first particle with the y of the second,
  and ends at (3, 4): line 154 reads \<open>particles[j].y\<close> where the claim needs
  \<open>particles[i].y\<close>.
\<close>

theorem connection_endpoints:
  "drawConnections [particleAt 0 0 0 0, particleAt 3 4 0 0] =
     [BeginPath, MoveTo 0 4, LineTo 3 4, SetGlobalAlpha (27 / 100), Stroke]"
  by (simp add: drawConnections_def connectionsOuter.simps connectionsInner.simps connection_def
      particleAt_def Let_def sqrt_25)

section \<open>Properties of the hand tracking\<close>

subsection \<open>The two loops over the frame\<close>

lemma motionPixel_sum:
  "motionPixel currentFrame prevFrame width x y =
     exceeds (sumAt currentFrame prevFrame ((y * width + x) * 4)) 75"
  by (simp add: motionPixel_def diffAt_def average3_def sumAt_def exceeds_def threshold_def Let_def
      split: option.splits)

lemma samplePixel_count:
  "motionCount (samplePixel c p w y x m) =
     motionCount m + (if motionPixel c p w x y then 1 else 0)"
  by (simp add: samplePixel_def motionPixel_def Let_def)

lemma scanRow_count:
  assumes "4 dvd x"
  shows "motionCount (scanRow c p w y x m) =
         motionCount m + card {x'. x \<le> x' \<and> x' < w \<and> 4 dvd x' \<and> motionPixel c p w x' y}"
  using assms
proof (induction c p w y x m rule: scanRow.induct)
  case (1 c p w y x m)
  let ?S = "\<lambda>a. {x'. a \<le> x' \<and> x' < w \<and> 4 dvd x' \<and> motionPixel c p w x' y}"
  show ?case
  proof (cases "x < w")
    case False
    then have "?S x = {}" by auto
    then show ?thesis using False by (simp add: scanRow.simps)
  next
    case True
    have d: "4 dvd (x + step)" using "1.prems" by (simp add: step_def)
    have fin: "finite (?S (x + 4))" by simp
    have between: "x' = x \<or> x + 4 \<le> x'" if "x \<le> x'" "4 dvd x'" for x'
      using that "1.prems" by presburger
    have split: "?S x = (if motionPixel c p w x y then {x} else {}) \<union> ?S (x + 4)"
      using True "1.prems" between by auto
    have "card (?S x) = (if motionPixel c p w x y then 1 else 0) + card (?S (x + 4))"
    proof (cases "motionPixel c p w x y")
      case True
      then have "?S x = insert x (?S (x + 4))" using split by simp
      moreover have "x \<notin> ?S (x + 4)" by simp
      ultimately show ?thesis using True fin by simp
    next
      case False
      then show ?thesis using split by simp
    qed
    moreover have "motionCount (scanRow c p w y x m) =
        motionCount (samplePixel c p w y x m) + card (?S (x + step))"
      using True "1.IH" [OF True d] by (subst scanRow.simps) simp
    ultimately show ?thesis
      by (simp add: samplePixel_count step_def)
  qed
qed

lemma scanRows_count:
  assumes "4 dvd y"
  shows "motionCount (scanRows c p w h y m) =
         motionCount m +
         card {(x', y'). y \<le> y' \<and> y' < h \<and> 4 dvd y' \<and> x' < w \<and> 4 dvd x' \<and> motionPixel c p w x' y'}"
  using assms
proof (induction c p w h y m rule: scanRows.induct)
  case (1 c p w h y m)
  let ?S = "\<lambda>a. {(x', y'). a \<le> y' \<and> y' < h \<and> 4 dvd y' \<and> x' < w \<and> 4 dvd x' \<and> motionPixel c p w x' y'}"
  let ?R = "{x'. 0 \<le> x' \<and> x' < w \<and> 4 dvd x' \<and> motionPixel c p w x' y}"
  show ?case
  proof (cases "y < h")
    case False
    then have "?S y = {}" by auto
    then have e: "card (?S y) = 0" by (simp only: card.empty)
    have r: "scanRows c p w h y m = m" using False by (simp add: scanRows.simps)
    show ?thesis unfolding r e by simp
  next
    case True
    have d: "4 dvd (y + step)" using "1.prems" by (simp add: step_def)
    have "?S (y + 4) \<subseteq> {..<w} \<times> {..<h}" by auto
    then have fin: "finite (?S (y + 4))" by (rule finite_subset) simp
    have finR: "finite ?R" by simp
    have between: "y' = y \<or> y + 4 \<le> y'" if "y \<le> y'" "4 dvd y'" for y'
      using that "1.prems" by presburger
    have split: "?S y = (\<lambda>x'. (x', y)) ` ?R \<union> ?S (y + 4)"
      using True "1.prems" between by auto
    have disj: "(\<lambda>x'. (x', y)) ` ?R \<inter> ?S (y + 4) = {}" by auto
    have "card ((\<lambda>x'. (x', y)) ` ?R) = card ?R"
      by (intro card_image) (simp add: inj_on_def)
    then have cardS: "card (?S y) = card ?R + card (?S (y + 4))"
      using split disj fin finR by (simp add: card_Un_disjoint)
    have "motionCount (scanRows c p w h y m) =
        motionCount (scanRow c p w y 0 m) + card (?S (y + step))"
      using True "1.IH" [OF True d] by (subst scanRows.simps) simp
    also have "motionCount (scanRow c p w y 0 m) = motionCount m + card ?R"
      using scanRow_count [of 0 c p w y m] by simp
    finally show ?thesis
      using cardS by (simp add: step_def)
  qed
qed

lemma findMotion_count:
  "motionCount (findMotion c p w h) =
     card {(x, y) \<in> sampled w h. motionPixel c p w x y}"
proof -
  have "{(x', y'). 0 \<le> y' \<and> y' < h \<and> 4 dvd y' \<and> x' < w \<and> 4 dvd x' \<and> motionPixel c p w x' y'}
      = {(x, y) \<in> sampled w h. motionPixel c p w x y}"
    by (auto simp: sampled_def)
  then show ?thesis
    using scanRows_count [of 0 c p w h "\<lparr>motionX = 0, motionY = 0, motionCount = 0\<rparr>"]
    by (simp add: findMotion_def)
qed

subsection \<open>Claims about processFrame\<close>

text \<open>
  C3 (as amended). The number of motion pixels of an analysis tick is the number of
  sampled pixels (every fourth pixel on both axes) for which the mean over the three
  colour channels of the absolute differences between the current and the previous
  frame exceeds 25, that is, for which the sum of the three absolute differences
  exceeds 75.
\<close>

theorem motion_pixel_threshold:
  "motionCount (findMotion currentFrame prevFrame width height) =
     card {(x, y) \<in> sampled width height.
             exceeds (diffAt currentFrame prevFrame ((y * width + x) * 4)) 25} \<and>
   motionCount (findMotion currentFrame prevFrame width height) =
     card {(x, y) \<in> sampled width height.
             exceeds (sumAt currentFrame prevFrame ((y * width + x) * 4)) 75}"
proof -
  have a: "motionCount (findMotion currentFrame prevFrame width height) =
     card {(x, y) \<in> sampled width height.
             exceeds (diffAt currentFrame prevFrame ((y * width + x) * 4)) 25}"
    using findMotion_count [of currentFrame prevFrame width height]
    by (simp only: motionPixel_def threshold_def)
  have b: "motionCount (findMotion currentFrame prevFrame width height) =
     card {(x, y) \<in> sampled width height.
             exceeds (sumAt currentFrame prevFrame ((y * width + x) * 4)) 75}"
    using findMotion_count [of currentFrame prevFrame width height]
    by (simp only: motionPixel_sum)
  show ?thesis
    using a b by (rule conjI)
qed

text \<open>
  C3 as stated fails: a pixel whose red channel changes by 40 and whose other channels
  do not change has a sum of absolute differences of 40, above every threshold between
  25 and 30, and is not counted.
\<close>

theorem motion_pixel_threshold_counterexample:
  "exceeds (sumAt [40, 0, 0, 255] [0, 0, 0, 255] 0) 30 \<and>
   (0, 0) \<in> sampled 1 1 \<and>
   motionCount (findMotion [40, 0, 0, 255] [0, 0, 0, 255] 1 1) = 0"
  by (simp add: exceeds_def sumAt_def absDiff_def byteAt_def sampled_def findMotion_def
      scanRows.simps scanRow.simps samplePixel_def diffAt_def average3_def threshold_def step_def
      Let_def)

lemma processFrame_analysis:
  assumes "isRunningRef t" "videoRef t = Some video" "canvasRef t = Some canvas"
    and "\<not> paused video" "\<not> ended video" "2 \<le> readyState video"
  shows "processFrame onHandUpdate True (Some currentFrame) (t, w) =
     (t\<lparr>prevFrameRef := Some currentFrame, animationRef := True\<rparr>,
      case prevFrameRef t of
        None \<Rightarrow> w
      | Some prevFrame \<Rightarrow>
          onHandUpdate
            (handOf video canvas
              (findMotion currentFrame prevFrame (canvasWidth canvas) (canvasHeight canvas))) w)"
  using assms by (simp add: processFrame_def Let_def not_less)

lemma same_samples_no_motion:
  assumes "\<forall>(x, y) \<in> sampled width height. \<forall>k<3.
             byteAt currentFrame ((y * width + x) * 4 + k) = byteAt prevFrame ((y * width + x) * 4 + k)"
  shows "motionCount (findMotion currentFrame prevFrame width height) = 0"
proof -
  have "\<not> motionPixel currentFrame prevFrame width x y" if "(x, y) \<in> sampled width height" for x y
  proof -
    have e: "byteAt currentFrame ((y * width + x) * 4 + k) = byteAt prevFrame ((y * width + x) * 4 + k)"
      if "k < 3" for k
      using assms \<open>(x, y) \<in> sampled width height\<close> that by blast
    show ?thesis
      using e [of 0] e [of 1] e [of 2]
      by (simp add: motionPixel_def diffAt_def average3_def absDiff_def exceeds_def threshold_def
          Let_def split: option.splits)
  qed
  then have "{(x, y) \<in> sampled width height. motionPixel currentFrame prevFrame width x y} = {}"
    by auto
  then show ?thesis
    by (simp only: findMotion_count card.empty)
qed

text \<open>
  C9. In an analysis tick that has a previous frame: when the channel values of every
  sampled pixel are the same in the current and in the previous frame, no motion pixel
  is counted; whenever the count of motion pixels is not above 30, the callback is
  called with null; and the current frame becomes the previous frame whatever the count.
\<close>

theorem still_frame_emits_null:
  assumes "isRunningRef t" "videoRef t = Some video" "canvasRef t = Some canvas"
    and "\<not> paused video" "\<not> ended video" "2 \<le> readyState video"
    and "prevFrameRef t = Some prevFrame"
  shows "((\<forall>(x, y) \<in> sampled (canvasWidth canvas) (canvasHeight canvas). \<forall>k<3.
             byteAt currentFrame ((y * canvasWidth canvas + x) * 4 + k) =
             byteAt prevFrame ((y * canvasWidth canvas + x) * 4 + k)) \<longrightarrow>
          motionCount (findMotion currentFrame prevFrame (canvasWidth canvas) (canvasHeight canvas)) = 0) \<and>
         (motionCount (findMotion currentFrame prevFrame (canvasWidth canvas) (canvasHeight canvas)) \<le> 30 \<longrightarrow>
          processFrame onHandUpdate True (Some currentFrame) (t, w) =
            (t\<lparr>prevFrameRef := Some currentFrame, animationRef := True\<rparr>, onHandUpdate None w)) \<and>
         prevFrameRef (fst (processFrame onHandUpdate True (Some currentFrame) (t, w))) = Some currentFrame"
  using same_samples_no_motion [of "canvasWidth canvas" "canvasHeight canvas" currentFrame prevFrame]
    assms(7)
  by (simp add: processFrame_analysis [OF assms(1-6)] handOf_def)

theorem still_frame_emits_null_witness:
  "isRunningRef watching \<and> videoRef watching = Some readyVideo \<and>
   canvasRef watching = Some \<lparr>canvasWidth = 160, canvasHeight = 120\<rparr> \<and>
   \<not> paused readyVideo \<and> \<not> ended readyVideo \<and> 2 \<le> readyState readyVideo \<and>
   prevFrameRef watching = Some stillFrame \<and>
   motionCount (findMotion stillFrame stillFrame 160 120) = 0 \<and>
   processFrame logUpdate True (Some stillFrame) (watching, []) =
     (watching\<lparr>prevFrameRef := Some stillFrame, animationRef := True\<rparr>, [None])"
proof -
  have a: "isRunningRef watching" "videoRef watching = Some readyVideo"
    "canvasRef watching = Some \<lparr>canvasWidth = 160, canvasHeight = 120\<rparr>"
    "\<not> paused readyVideo" "\<not> ended readyVideo" "2 \<le> readyState readyVideo"
    "prevFrameRef watching = Some stillFrame"
    by (simp_all add: watching_def initialize_def mounted_def readyVideo_def)
  note t = still_frame_emits_null [OF a, of stillFrame logUpdate "[]"]
  have z: "motionCount (findMotion stillFrame stillFrame 160 120) = 0"
    using t by simp
  then have "processFrame logUpdate True (Some stillFrame) (watching, []) =
     (watching\<lparr>prevFrameRef := Some stillFrame, animationRef := True\<rparr>, [None])"
    using t by (simp add: logUpdate_def)
  then show ?thesis
    using a z by simp
qed

text \<open>
  C10. In an analysis tick that has no previous frame the callback is not called, so
  the state of whoever installed it is what it was, and the captured frame becomes the
  previous frame. \<open>stop\<close> discards the previous frame, and the first analysis tick after
  a start is such a tick, be it the first start or a start after \<open>stop\<close>.
\<close>

theorem first_frame_publishes_nothing:
  assumes "isRunningRef t" "videoRef t = Some video" "canvasRef t = Some canvas"
    and "\<not> paused video" "\<not> ended video" "2 \<le> readyState video"
    and "prevFrameRef t = None"
  shows "processFrame onHandUpdate True (Some currentFrame) (t, w) =
           (t\<lparr>prevFrameRef := Some currentFrame, animationRef := True\<rparr>, w) \<and>
         prevFrameRef (stop t') = None \<and>
         processFrame onHandUpdate True (Some currentFrame) (initialize video (stop t'), w) =
           ((initialize video (stop t'))\<lparr>prevFrameRef := Some currentFrame, animationRef := True\<rparr>,
            w) \<and>
         processFrame onHandUpdate True (Some currentFrame) (initialize video mounted, w) =
           ((initialize video mounted)\<lparr>prevFrameRef := Some currentFrame, animationRef := True\<rparr>,
            w)"
proof -
  have first: "processFrame onHandUpdate True (Some currentFrame) (u, w) =
      (u\<lparr>prevFrameRef := Some currentFrame, animationRef := True\<rparr>, w)"
    if "isRunningRef u" "videoRef u = Some video" "canvasRef u = Some c" "prevFrameRef u = None"
    for u c
    using that(4) by (simp add: processFrame_analysis [OF that(1-3) assms(4-6)])
  have a: "processFrame onHandUpdate True (Some currentFrame) (t, w) =
      (t\<lparr>prevFrameRef := Some currentFrame, animationRef := True\<rparr>, w)"
    using assms(1-3,7) by (rule first)
  have b: "prevFrameRef (stop t') = None"
    by (simp add: stop_def)
  have c: "processFrame onHandUpdate True (Some currentFrame) (initialize video (stop t'), w) =
      ((initialize video (stop t'))\<lparr>prevFrameRef := Some currentFrame, animationRef := True\<rparr>, w)"
    by (rule first) (simp_all add: initialize_def stop_def)
  have d: "processFrame onHandUpdate True (Some currentFrame) (initialize video mounted, w) =
      ((initialize video mounted)\<lparr>prevFrameRef := Some currentFrame, animationRef := True\<rparr>, w)"
    by (rule first) (simp_all add: initialize_def mounted_def)
  show ?thesis
    using a b c d by blast
qed

theorem first_frame_publishes_nothing_witness:
  "isRunningRef (initialize readyVideo mounted) \<and>
   videoRef (initialize readyVideo mounted) = Some readyVideo \<and>
   canvasRef (initialize readyVideo mounted) = Some \<lparr>canvasWidth = 160, canvasHeight = 120\<rparr> \<and>
   \<not> paused readyVideo \<and> \<not> ended readyVideo \<and> 2 \<le> readyState readyVideo \<and>
   prevFrameRef (initialize readyVideo mounted) = None \<and>
   processFrame logUpdate True (Some stillFrame) (initialize readyVideo mounted, [None]) =
     ((initialize readyVideo mounted)\<lparr>prevFrameRef := Some stillFrame, animationRef := True\<rparr>,
      [None]) \<and>
   processFrame logUpdate True (Some stillFrame) (initialize readyVideo (stop watching), [None]) =
     ((initialize readyVideo (stop watching))\<lparr>prevFrameRef := Some stillFrame, animationRef := True\<rparr>,
      [None])"
proof -
  have a: "isRunningRef (initialize readyVideo mounted)"
    "videoRef (initialize readyVideo mounted) = Some readyVideo"
    "canvasRef (initialize readyVideo mounted) = Some \<lparr>canvasWidth = 160, canvasHeight = 120\<rparr>"
    "\<not> paused readyVideo" "\<not> ended readyVideo" "2 \<le> readyState readyVideo"
    "prevFrameRef (initialize readyVideo mounted) = None"
    by (simp_all add: initialize_def mounted_def readyVideo_def)
  show ?thesis
    using a first_frame_publishes_nothing [OF a, of logUpdate stillFrame "[None]" watching]
    by simp
qed

end
